theory Spec2Isabelle
  imports Complex_Main "HOL-Library.Word"
begin

section \<open>The LTC generator of a session (libs/ardour/session\_ltc.cc)\<close>

text \<open>
  The generator is driven once per audio block by \<open>Session::send_ltc_for_cycle\<close>.
  Its state is a handful of members of the session object; everything else it reads
  (configuration, engine, transport master) or calls (the libltc encoder, the timecode
  conversions of the Temporal library) lives outside the file and is a parameter of the
  model.

  Conventions of the embedding:
  \<^item> a C \<open>double\<close> or \<open>float\<close> is a \<open>real\<close>: arithmetic is exact, rounding of the
    machine formats is not modelled;
  \<^item> \<open>samplepos_t\<close>, \<open>samplecnt_t\<close>, \<open>int32_t\<close> are \<open>int\<close> (no overflow is modelled),
    \<open>pframes_t\<close> is \<open>nat\<close>, \<open>ltcsnd_sample_t\<close> (unsigned char) is \<open>8 word\<close>;
  \<^item> the scratch array \<open>ltc_enc_buf\<close> is a function from index to byte; its capacity is
    not modelled;
  \<^item> the lines written by \<open>DEBUG_TRACE\<close> at the places where the function takes a
    decision, and the message sent to \<open>PBD::error\<close>, are collected in \<open>tx_log\<close>;
  \<^item> a \<open>return\<close> in the middle of the function is the constructor \<open>Return\<close> of a stage.
\<close>

subsection \<open>C arithmetic\<close>

text \<open>Conversion of a floating value to an integer type truncates towards zero.\<close>

definition c_trunc :: "real \<Rightarrow> int" where
  "c_trunc x = (if 0 \<le> x then \<lfloor>x\<rfloor> else \<lceil>x\<rceil>)"

text \<open>\<open>fmod (x, y)\<close>: the remainder has the sign of \<open>x\<close>.\<close>

definition fmod :: "real \<Rightarrow> real \<Rightarrow> real" where
  "fmod x y = x - real_of_int (c_trunc (x / y)) * y"

text \<open>The operator \<open>%\<close> on integers truncates towards zero as well.\<close>

definition c_rem :: "int \<Rightarrow> int \<Rightarrow> int" where
  "c_rem a b = sgn a * (\<bar>a\<bar> mod \<bar>b\<bar>)"

text \<open>\<open>rint\<close> rounds to the nearest integer, ties to even.\<close>

definition rint :: "real \<Rightarrow> real" where
  "rint x =
     (let f = \<lfloor>x\<rfloor>; d = x - real_of_int f
      in real_of_int (if d < 1 / 2 then f else if 1 / 2 < d then f + 1
                      else if even f then f else f + 1))"

text \<open>\<open>#define SIGNUM(a) ( (a) < 0 ? -1 : 1)\<close>\<close>

definition SIGNUM :: "real \<Rightarrow> int" where
  "SIGNUM a = (if a < 0 then - 1 else 1)"

text \<open>\<open>memmove (&buf[dst], &buf[src], cnt)\<close> and \<open>memset (&buf[dst], v, cnt)\<close> on an array.\<close>

definition memmove :: "(int \<Rightarrow> 'a) \<Rightarrow> int \<Rightarrow> int \<Rightarrow> int \<Rightarrow> (int \<Rightarrow> 'a)" where
  "memmove buf dst src cnt = (\<lambda>i. if dst \<le> i \<and> i < dst + cnt then buf (i - dst + src) else buf i)"

definition memset :: "(int \<Rightarrow> 'a) \<Rightarrow> int \<Rightarrow> 'a \<Rightarrow> int \<Rightarrow> (int \<Rightarrow> 'a)" where
  "memset buf dst v cnt = (\<lambda>i. if dst \<le> i \<and> i < dst + cnt then v else buf i)"

text \<open>Copying the samples handed out by the encoder to \<open>&buf[dst]\<close>.\<close>

definition copy_samples :: "(int \<Rightarrow> 'a) \<Rightarrow> int \<Rightarrow> 'a list \<Rightarrow> (int \<Rightarrow> 'a)" where
  "copy_samples buf dst xs =
     (\<lambda>i. if dst \<le> i \<and> i < dst + int (length xs) then xs ! nat (i - dst) else buf i)"

subsection \<open>Data\<close>

text \<open>
  \<open>Timecode::TimecodeFormat\<close> and \<open>LTC_TV_STANDARD\<close> are enumerations declared in headers
  outside the file; the file names \<open>timecode_23976\<close>, \<open>timecode_24976\<close> and three TV
  standards. The frame rate and the drop-frame flag of a format are given by functions of
  the Temporal library, parameters here.
\<close>

datatype TimecodeFormat =
    timecode_23976 | timecode_24 | timecode_24976 | timecode_25
  | timecode_2997 | timecode_2997drop | timecode_2997000 | timecode_2997000drop
  | timecode_30 | timecode_30drop | timecode_5994 | timecode_60

datatype LTC_TV_STANDARD = LTC_TV_525_60 | LTC_TV_625_50 | LTC_TV_FILM_24

text \<open>\<open>Timecode::Time\<close>, the fields the file touches.\<close>

record Time =
  hours :: nat
  minutes :: nat
  seconds :: nat
  frames :: nat
  rate :: real
  drop_frames :: bool

text \<open>\<open>SMPTETimecode\<close> of libltc, the fields the file touches.\<close>

record SMPTETimecode =
  smpte_hours :: nat
  smpte_mins :: nat
  smpte_secs :: nat
  smpte_frame :: nat

text \<open>The lines of the debug trace that are kept, in the order of the file.\<close>

datatype event =
    TX_cleanup
  | TX_reset
  | Error_invalid_framerate
  | TX_direction_changed
  | TX_not_rolling
  | TX_no_roll_seek
  | TX_out_of_bounds
  | TX_started_rolling
  | TX_resample_destroys
  | TX_realign int int int
  | TX_restart_encoder int int int
  | TX_encoder_error int
  | TX_empty_buffer
  | TX_done nat

text \<open>
  The members of \<open>Session\<close> used by the generator. The two pointers \<open>ltc_encoder\<close> and
  \<open>ltc_enc_buf\<close> are an object and a flag telling that the pointer is not null.
\<close>

record 'e session =
  has_ltc_encoder :: bool
  ltc_encoder :: 'e
  has_ltc_enc_buf :: bool
  ltc_enc_buf :: "int \<Rightarrow> 8 word"
  ltc_enc_tcformat :: TimecodeFormat
  ltc_buf_off :: int
  ltc_buf_len :: int
  ltc_speed :: real
  ltc_enc_byte :: int
  ltc_enc_pos :: int
  ltc_enc_cnt :: real
  restarting :: bool
  ltc_prev_cycle :: int
  ltc_timecode_offset :: int
  ltc_timecode_negative_offset :: bool
  ltc_out_latency_max :: int
  tx_log :: "event list"

text \<open>
  What the function reads from its collaborators during one call: the configuration, the
  engine, the transport master, and the conversions of the Temporal library (with the
  session's frame rate, sample rate and subframes fixed; the arguments left are the
  position or timecode, \<open>offset_is_negative\<close> and \<open>offset\<close>).
\<close>

record host =
  has_ltc_output_port :: bool
  has_transport_master :: bool
  sync_src_is_MIDIClock :: bool
  freewheeling :: bool
  send_ltc :: bool
  external_sync :: bool
  ltc_output_volume :: real
  timecode_format :: TimecodeFormat
  nominal_sample_rate :: int
  sample_rate :: int
  engine_sample_rate :: int
  ltc_send_continuously :: bool
  samples_per_timecode_frame :: real
  transport_master_is_external :: bool
  transport_master_resolution :: int
  generator_offset :: int
  generator_offset_negative :: bool
  timecode_to_frames_per_second :: "TimecodeFormat \<Rightarrow> real"
  timecode_has_drop_frames :: "TimecodeFormat \<Rightarrow> bool"
  sample_to_timecode :: "int \<Rightarrow> bool \<Rightarrow> int \<Rightarrow> Time"
  timecode_to_sample :: "Time \<Rightarrow> bool \<Rightarrow> int \<Rightarrow> int"

text \<open>
  The primitives of libltc on an encoder of type \<open>'e\<close>. \<open>ltc_encoder_reinit\<close> is \<open>None\<close>
  when it reports an error; \<open>ltc_encoder_encode_byte\<close> returns the error flag and the
  encoder; \<open>ltc_encoder_get_buffer\<close> hands out the encoded samples and empties the
  encoder's own buffer; \<open>ltc_encoder_force_dfbit\<close> is \<open>ltc_encoder_get_frame\<close>, the
  assignment to \<open>dfbit\<close> and \<open>ltc_encoder_set_frame\<close>.
\<close>

record 'e libltc =
  ltc_encoder_reset :: "'e \<Rightarrow> 'e"
  ltc_encoder_reinit :: "'e \<Rightarrow> int \<Rightarrow> real \<Rightarrow> LTC_TV_STANDARD \<Rightarrow> 'e option"
  ltc_encoder_set_filter :: "'e \<Rightarrow> real \<Rightarrow> 'e"
  ltc_encoder_set_timecode :: "'e \<Rightarrow> SMPTETimecode \<Rightarrow> 'e"
  ltc_encoder_get_timecode :: "'e \<Rightarrow> SMPTETimecode"
  ltc_encoder_force_dfbit :: "'e \<Rightarrow> bool \<Rightarrow> 'e"
  ltc_encoder_inc_timecode :: "'e \<Rightarrow> 'e"
  ltc_encoder_dec_timecode :: "'e \<Rightarrow> 'e"
  ltc_encoder_encode_byte :: "'e \<Rightarrow> int \<Rightarrow> real \<Rightarrow> bool \<times> 'e"
  ltc_encoder_get_buffer :: "'e \<Rightarrow> 8 word list \<times> 'e"
  ltc_encoder_buffer_flush :: "'e \<Rightarrow> 'e"
  ltc_frame_alignment :: "real \<Rightarrow> LTC_TV_STANDARD \<Rightarrow> int"

text \<open>A stage of the function either returns from it or hands on to the next stage.\<close>

datatype ('r, 'c) flow = Return 'r | Continue 'c

subsection \<open>Macros and the small member functions\<close>

definition trace :: "event \<Rightarrow> 'e session \<Rightarrow> 'e session" where
  "trace ev s = s\<lparr>tx_log := tx_log s @ [ev]\<rparr>"

definition LTC_RISE_TIME :: "host \<Rightarrow> real \<Rightarrow> real" where
  "LTC_RISE_TIME H speed =
     min 100 (max 40 (4000000 / (if speed = 0 then 1 else speed) / real_of_int (engine_sample_rate H)))"

definition TV_STANDARD :: "host \<Rightarrow> TimecodeFormat \<Rightarrow> LTC_TV_STANDARD" where
  "TV_STANDARD H tcf =
     (if timecode_to_frames_per_second H tcf = 25 then LTC_TV_625_50
      else if timecode_has_drop_frames H tcf then LTC_TV_525_60 else LTC_TV_FILM_24)"

definition ltc_tx_cleanup :: "'e session \<Rightarrow> 'e session" where
  "ltc_tx_cleanup s = (trace TX_cleanup s)\<lparr>has_ltc_enc_buf := False, has_ltc_encoder := False\<rparr>"

definition ltc_tx_reset :: "'e libltc \<Rightarrow> 'e session \<Rightarrow> 'e session" where
  "ltc_tx_reset L s =
     (trace TX_reset s)
       \<lparr>ltc_enc_pos := - 9999, ltc_buf_len := 0, ltc_buf_off := 0, ltc_enc_byte := 0,
        ltc_enc_cnt := 0, ltc_encoder := ltc_encoder_reset L (ltc_encoder s)\<rparr>"

definition ltc_tx_parse_offset :: "host \<Rightarrow> 'e session \<Rightarrow> 'e session" where
  "ltc_tx_parse_offset H s =
     s\<lparr>ltc_timecode_offset := generator_offset H,
       ltc_timecode_negative_offset := (\<not> generator_offset_negative H),
       ltc_prev_cycle := - 1\<rparr>"

definition ltc_tx_recalculate_position :: "'e libltc \<Rightarrow> host \<Rightarrow> 'e session \<Rightarrow> 'e session" where
  "ltc_tx_recalculate_position L H s =
     (let enctc = ltc_encoder_get_timecode L (ltc_encoder s);
          a3tc = \<lparr>hours = smpte_hours enctc, minutes = smpte_mins enctc,
                  seconds = smpte_secs enctc, frames = smpte_frame enctc,
                  rate = timecode_to_frames_per_second H (ltc_enc_tcformat s),
                  drop_frames = timecode_has_drop_frames H (ltc_enc_tcformat s)\<rparr>
      in s\<lparr>ltc_enc_pos := timecode_to_sample H a3tc (ltc_timecode_negative_offset s) (ltc_timecode_offset s),
           restarting := False\<rparr>)"

subsection \<open>Stage 1: the timecode format\<close>

text \<open>
  Lines 226 to 241. When \<open>ltc_encoder_reinit\<close> reports an error the message goes to
  \<open>PBD::error\<close>, \<open>ltc_tx_cleanup\<close> frees the encoder and the function returns.
\<close>

definition check_fps :: "'e libltc \<Rightarrow> host \<Rightarrow> 'e session \<Rightarrow> ('e session, 'e session) flow" where
  "check_fps L H s =
     (let cur_timecode = timecode_format H
      in if cur_timecode \<noteq> ltc_enc_tcformat s then
           (case ltc_encoder_reinit L (ltc_encoder s) (nominal_sample_rate H)
                   (timecode_to_frames_per_second H cur_timecode) (TV_STANDARD H cur_timecode) of
              None \<Rightarrow> Return (ltc_tx_cleanup (trace Error_invalid_framerate s))
            | Some e \<Rightarrow>
                Continue
                  (ltc_tx_reset L
                    (ltc_tx_parse_offset H
                      (s\<lparr>ltc_encoder := ltc_encoder_set_filter L e (LTC_RISE_TIME H (ltc_speed s)),
                         ltc_enc_tcformat := cur_timecode\<rparr>))))
         else Continue s)"

subsection \<open>Stage 2: speed and direction\<close>

text \<open>Line 256: the speed of the block as the transport reports it.\<close>

definition block_speed :: "int \<Rightarrow> int \<Rightarrow> nat \<Rightarrow> real" where
  "block_speed start_sample end_sample n_samples =
     real_of_int (end_sample - start_sample) / real n_samples"

text \<open>Lines 274 to 295: latency compensation, TV standard offset, clamp.\<close>

definition cycle_start_sample :: "'e libltc \<Rightarrow> host \<Rightarrow> 'e session \<Rightarrow> int \<Rightarrow> real \<Rightarrow> int" where
  "cycle_start_sample L H s start_sample new_ltc_speed =
     (let c0 = (if new_ltc_speed < 0 then start_sample - ltc_out_latency_max s
                else if new_ltc_speed > 0 then start_sample + ltc_out_latency_max s
                else start_sample);
          c1 = (if new_ltc_speed \<noteq> 0
                then c0 - ltc_frame_alignment L (samples_per_timecode_frame H)
                            (TV_STANDARD H (timecode_format H))
                else c0)
      in if c1 < 0 then 0 else c1)"

text \<open>Lines 297 to 299.\<close>

definition rescale_speed :: "host \<Rightarrow> real \<Rightarrow> real" where
  "rescale_speed H new_ltc_speed =
     (if nominal_sample_rate H \<noteq> sample_rate H
      then new_ltc_speed * (real_of_int (nominal_sample_rate H) / real_of_int (sample_rate H))
      else new_ltc_speed)"

text \<open>Lines 339 to 348: the bound on the speed and the start of rolling.\<close>

definition speed_bounds ::
  "'e libltc \<Rightarrow> 'e session \<Rightarrow> real \<Rightarrow> bool \<Rightarrow> ('e session, 'e session \<times> real \<times> bool) flow" where
  "speed_bounds L s new_ltc_speed speed_changed =
     (if \<bar>new_ltc_speed\<bar> > 10 then Return (ltc_tx_reset L (trace TX_out_of_bounds s))
      else Continue
             (if ltc_speed s = 0 \<and> new_ltc_speed \<noteq> 0
              then ltc_tx_reset L (trace TX_started_rolling s) else s,
              new_ltc_speed, speed_changed))"

text \<open>
  Lines 301 to 348. The result of a block that goes on is the state, the speed of the
  block (0 when the transport does not roll) and \<open>speed_changed\<close>.
\<close>

definition speed_and_direction ::
  "'e libltc \<Rightarrow> host \<Rightarrow> 'e session \<Rightarrow> int \<Rightarrow> int \<Rightarrow> real
     \<Rightarrow> ('e session, 'e session \<times> real \<times> bool) flow" where
  "speed_and_direction L H s start_sample end_sample new_ltc_speed =
     (let s1 = (if SIGNUM new_ltc_speed \<noteq> SIGNUM (ltc_speed s)
                then ltc_tx_reset L (trace TX_direction_changed s) else s);
          speed_changed = (ltc_speed s1 \<noteq> new_ltc_speed);
          s2 = (if speed_changed
                then s1\<lparr>ltc_encoder :=
                          ltc_encoder_set_filter L (ltc_encoder s1) (LTC_RISE_TIME H new_ltc_speed)\<rparr>
                else s1)
      in if end_sample = start_sample \<or> \<bar>new_ltc_speed\<bar> < 1 / 10 then
           (let s3 = trace TX_not_rolling s2
            in if \<not> ltc_send_continuously H then Return (s3\<lparr>ltc_speed := 0\<rparr>)
               else speed_bounds L
                      (if start_sample \<noteq> ltc_prev_cycle s3
                       then ltc_tx_reset L (trace TX_no_roll_seek s3) else s3)
                      0 speed_changed)
         else speed_bounds L s2 new_ltc_speed speed_changed)"

subsection \<open>Resampling of the samples still in the buffer\<close>

text \<open>
  Lines 388 to 397, the loop that duplicates samples; \<open>rp\<close> and \<open>incnt\<close> are the loop
  variables. The loop has no bound of its own: it ends because the average distance is
  above 1 where it is called, and is a partial function here.
\<close>

partial_function (option) resample_insert ::
  "real \<Rightarrow> 'e session \<Rightarrow> int \<Rightarrow> int \<Rightarrow> 'e session option" where
  "resample_insert avg_distance s rp incnt =
     (if rp < ltc_buf_len s - 1 then
        (let ro = rp - ltc_buf_off s
         in if real_of_int ro < real_of_int incnt * avg_distance
            then resample_insert avg_distance s (rp + 1) incnt
            else if ltc_enc_buf s rp \<noteq> ltc_enc_buf s (rp + 1)
                    \<and> real_of_int ro < real_of_int (incnt + 1) * avg_distance
            then resample_insert avg_distance s (rp + 1) incnt
            else resample_insert avg_distance
                   (s\<lparr>ltc_enc_buf := memmove (ltc_enc_buf s) (rp + 1) rp (ltc_buf_len s - rp),
                      ltc_buf_len := ltc_buf_len s + 1\<rparr>)
                   (rp + 1) (incnt + 1))
      else Some s)"

text \<open>Lines 406 to 415, the loop that removes samples.\<close>

function resample_remove :: "real \<Rightarrow> 'e session \<Rightarrow> int \<Rightarrow> int \<Rightarrow> 'e session" where
  "resample_remove avg_distance s rp rmcnt =
     (if rp < ltc_buf_len s - 1 then
        (let ro = rp - ltc_buf_off s
         in if real_of_int ro < real_of_int rmcnt * avg_distance
            then resample_remove avg_distance s (rp + 1) rmcnt
            else if ltc_enc_buf s rp \<noteq> ltc_enc_buf s (rp + 1)
                    \<and> real_of_int ro < real_of_int (rmcnt + 1) * avg_distance
            then resample_remove avg_distance s (rp + 1) rmcnt
            else resample_remove avg_distance
                   (s\<lparr>ltc_enc_buf := memmove (ltc_enc_buf s) rp (rp + 1) (ltc_buf_len s - rp - 1),
                      ltc_buf_len := ltc_buf_len s - 1\<rparr>)
                   (rp + 1) (rmcnt + 1))
      else s)"
  by pat_completeness auto
termination
  by (relation "measure (\<lambda>(a, s, rp, c). nat (ltc_buf_len s - 1 - rp))") auto

declare resample_remove.simps [simp del]

text \<open>Line 354: the timecode duration of the samples still in the buffer, at the old speed.\<close>

definition buffered_duration :: "'e session \<Rightarrow> real" where
  "buffered_duration s = real_of_int (ltc_buf_len s - ltc_buf_off s) * ltc_speed s"

text \<open>
  Lines 354 to 418. The state still holds the speed of the previous block. The result is
  the state and \<open>poff\<close>; \<open>None\<close> when the loop of insertions does not end.
\<close>

definition resample_buffer ::
  "'e libltc \<Rightarrow> 'e session \<Rightarrow> real \<Rightarrow> bool \<Rightarrow> ('e session \<times> real) option" where
  "resample_buffer L s new_ltc_speed speed_changed =
     (let poff = buffered_duration s
      in if speed_changed \<and> new_ltc_speed \<noteq> 0 then
           (let oldbuflen = real_of_int (ltc_buf_len s - ltc_buf_off s);
                newbuflen = real_of_int (ltc_buf_len s - ltc_buf_off s) * \<bar>ltc_speed s / new_ltc_speed\<bar>;
                bufrspdiff = rint (newbuflen - oldbuflen)
            in if \<bar>bufrspdiff\<bar> > newbuflen \<or> \<bar>bufrspdiff\<bar> > oldbuflen then
                 Some (ltc_tx_reset L (trace TX_resample_destroys s), 0)
               else if bufrspdiff \<noteq> 0 \<and> newbuflen > oldbuflen then
                 (let samples_to_insert = real_of_int \<lceil>newbuflen - oldbuflen\<rceil>;
                      avg_distance = newbuflen / samples_to_insert
                  in map_option (\<lambda>s'. (s', poff))
                       (resample_insert avg_distance s (ltc_buf_off s) 0))
               else if bufrspdiff \<noteq> 0 \<and> newbuflen < oldbuflen then
                 (let samples_to_remove = real_of_int \<lceil>oldbuflen - newbuflen\<rceil>
                  in if oldbuflen \<le> samples_to_remove
                     then Some (s\<lparr>ltc_buf_len := 0, ltc_buf_off := 0\<rparr>, poff)
                     else Some (resample_remove (newbuflen / samples_to_remove) s (ltc_buf_off s) 0, poff))
               else Some (s, poff))
         else Some (s, poff))"

subsection \<open>Stages 3 to 5: alignment\<close>

text \<open>Lines 466 to 478: the largest difference of alignment that is left alone.\<close>

definition maxdiff :: "host \<Rightarrow> 'e session \<Rightarrow> real" where
  "maxdiff H s =
     (if transport_master_is_external H then real_of_int (transport_master_resolution H)
      else (let m0 = real_of_int \<lceil>\<bar>ltc_speed s\<bar>\<rceil> * 2;
                m1 = (if nominal_sample_rate H \<noteq> sample_rate H then m0 * 3 else m0)
            in if ltc_enc_tcformat s = timecode_23976 \<or> ltc_enc_tcformat s = timecode_24976
               then m1 * 15 else m1))"

text \<open>Line 488.\<close>

definition wrap24h :: "host \<Rightarrow> int" where
  "wrap24h H = c_trunc (86400 * real_of_int (sample_rate H))"

text \<open>Lines 489 and 490, the condition of the re-alignment.\<close>

definition alignment_mismatch :: "host \<Rightarrow> 'e session \<Rightarrow> int \<Rightarrow> real \<Rightarrow> bool" where
  "alignment_mismatch H s cycle_start poff =
     (ltc_enc_pos s < 0
      \<or> (ltc_speed s \<noteq> 0
         \<and> \<bar>fmod (real_of_int \<lceil>real_of_int (ltc_enc_pos s) + ltc_enc_cnt s - poff\<rceil>)
                  (real_of_int (wrap24h H))
             - real_of_int (c_rem cycle_start (wrap24h H))\<bar> > maxdiff H s))"

text \<open>Line 565, the condition of the correction of the speed, and line 583, the correction.\<close>

definition jitter_correctable :: "host \<Rightarrow> 'e session \<Rightarrow> bool" where
  "jitter_correctable H s =
     (ltc_speed s \<noteq> 0 \<and> samples_per_timecode_frame H / ltc_speed s / 80 > 3)"

definition reduce_jitter :: "host \<Rightarrow> 'e session \<Rightarrow> int \<Rightarrow> real \<Rightarrow> 'e session" where
  "reduce_jitter H s cycle_start poff =
     s\<lparr>ltc_speed :=
         ltc_speed s
         - fmod ((real_of_int (ltc_enc_pos s) + ltc_enc_cnt s - poff) - real_of_int cycle_start)
                (real_of_int (wrap24h H))
           / real_of_int (engine_sample_rate H)\<rparr>"

text \<open>The three branches of lines 489 to 584.\<close>

datatype alignment = Realign | Reduce_jitter | Keep

definition alignment_branch :: "host \<Rightarrow> 'e session \<Rightarrow> int \<Rightarrow> real \<Rightarrow> alignment" where
  "alignment_branch H s cycle_start poff =
     (if alignment_mismatch H s cycle_start poff then Realign
      else if jitter_correctable H s then Reduce_jitter else Keep)"

text \<open>Lines 497 to 510: the timecode given to the encoder, and the drop-frame bit.\<close>

definition seed_encoder :: "'e libltc \<Rightarrow> host \<Rightarrow> Time \<Rightarrow> 'e \<Rightarrow> 'e" where
  "seed_encoder L H tc_start e =
     ltc_encoder_force_dfbit L
       (ltc_encoder_set_timecode L e
          \<lparr>smpte_hours = hours tc_start mod 24, smpte_mins = minutes tc_start,
           smpte_secs = seconds tc_start, smpte_frame = frames tc_start\<rparr>)
       (timecode_has_drop_frames H (timecode_format H))"

text \<open>
  Lines 522 to 542: the byte to send and the offset in the cycle. The result is the state
  and \<open>cyc_off\<close>.
\<close>

definition byte_alignment :: "'e libltc \<Rightarrow> host \<Rightarrow> 'e session \<Rightarrow> int \<Rightarrow> 'e session \<times> int" where
  "byte_alignment L H s soff =
     (let fptcf = samples_per_timecode_frame H
      in if ltc_speed s < 0 then
           (let enc_byte = \<lfloor>(10 * real_of_int soff) / fptcf\<rfloor>;
                enc_cnt = real_of_int enc_byte * fptcf / 10
            in (s\<lparr>ltc_enc_byte := enc_byte, ltc_enc_cnt := enc_cnt\<rparr>, soff - \<lceil>enc_cnt\<rceil>))
         else
           (let enc_byte = \<lceil>(10 * real_of_int soff) / fptcf\<rceil>;
                enc_cnt = real_of_int enc_byte * fptcf / 10;
                s1 = s\<lparr>ltc_enc_byte := enc_byte, ltc_enc_cnt := enc_cnt\<rparr>
            in (if enc_byte = 10
                then s1\<lparr>ltc_enc_byte := 0,
                        ltc_encoder := ltc_encoder_inc_timecode L (ltc_encoder s1)\<rparr>
                else s1,
                \<lceil>enc_cnt\<rceil> - soff)))"

text \<open>
  Lines 494 to 563. A block that goes on has the state, the index \<open>txf\<close> of the first
  sample to write and the output buffer.
\<close>

definition realign ::
  "'e libltc \<Rightarrow> host \<Rightarrow> 'e session \<Rightarrow> int \<Rightarrow> Time \<Rightarrow> int \<Rightarrow> int \<Rightarrow> nat \<Rightarrow> real list
     \<Rightarrow> ('e session, 'e session \<times> nat \<times> real list) flow" where
  "realign L H s cycle_start tc_start tc_sample_start soff n_samples out =
     (let s1 = ltc_tx_reset L s;
          s2 = trace (TX_realign cycle_start tc_sample_start soff)
                 (s1\<lparr>ltc_encoder := seed_encoder L H tc_start (ltc_encoder s1)\<rparr>)
      in if soff < 0 \<or> real_of_int soff \<ge> samples_per_timecode_frame H
         then Return (ltc_tx_reset L s2)
         else (case byte_alignment L H s2 soff of
                 (s3, cyc_off) \<Rightarrow>
                   (let s4 = trace (TX_restart_encoder soff (ltc_enc_byte s3) cyc_off) s3;
                        s5 = (if (ltc_speed s4 < 0 \<and> ltc_enc_byte s4 \<noteq> 9)
                                 \<or> (ltc_speed s4 \<ge> 0 \<and> ltc_enc_byte s4 \<noteq> 0)
                              then s4\<lparr>restarting := True\<rparr> else s4)
                    in if cyc_off \<ge> 0 \<and> cyc_off \<le> int n_samples
                       then Continue
                              (s5\<lparr>ltc_enc_pos := c_rem tc_sample_start (wrap24h H)\<rparr>,
                               nat (c_trunc (rint (real_of_int cyc_off / \<bar>ltc_speed s5\<bar>))),
                               replicate (nat cyc_off) 0 @ drop (nat cyc_off) out)
                       else Return s5)))"

subsection \<open>Stage 6: encode and output\<close>

text \<open>Lines 593 to 597: the samples of the buffer go to the output, scaled.\<close>

function send_remaining ::
  "real \<Rightarrow> nat \<Rightarrow> 'e session \<Rightarrow> real list \<Rightarrow> nat \<Rightarrow> 'e session \<times> real list \<times> nat" where
  "send_remaining ltcvol n_samples s out txf =
     (if ltc_buf_off s < ltc_buf_len s \<and> txf < n_samples then
        (let v1 = real (unat (ltc_enc_buf s (ltc_buf_off s))) - 128;
             val = v1 * ltcvol
         in send_remaining ltcvol n_samples (s\<lparr>ltc_buf_off := ltc_buf_off s + 1\<rparr>)
              (out[txf := val]) (txf + 1))
      else (s, out, txf))"
  by pat_completeness auto
termination
  by (relation "measure (\<lambda>(v, n, s, out, txf). n - txf)") auto

declare send_remaining.simps [simp del]

text \<open>Lines 608 to 620: the buffer is empty; when going backwards the byte is stepped first.\<close>

definition step_back :: "'e libltc \<Rightarrow> host \<Rightarrow> 'e session \<Rightarrow> 'e session" where
  "step_back L H s =
     (let s0 = s\<lparr>ltc_buf_len := 0, ltc_buf_off := 0\<rparr>
      in if ltc_speed s0 < 0 then
           (let s1 = s0\<lparr>ltc_enc_byte := c_rem (ltc_enc_byte s0 + 9) 10\<rparr>
            in if ltc_enc_byte s1 = 9
               then (ltc_tx_recalculate_position L H
                       (s1\<lparr>ltc_encoder := ltc_encoder_dec_timecode L (ltc_encoder s1)\<rparr>))
                      \<lparr>ltc_enc_cnt := samples_per_timecode_frame H\<rparr>
               else s1)
         else s0)"

text \<open>Lines 643 to 672: an empty result ends the block; otherwise the counters move on.\<close>

definition account_encoded ::
  "'e libltc \<Rightarrow> host \<Rightarrow> 'e session \<Rightarrow> int \<Rightarrow> ('e session, 'e session) flow" where
  "account_encoded L H s enc_samples =
     (let fptcf = samples_per_timecode_frame H
      in if enc_samples \<le> 0 then
           Return (ltc_tx_reset L
                     ((trace TX_empty_buffer s)
                        \<lparr>ltc_encoder := ltc_encoder_buffer_flush L (ltc_encoder s)\<rparr>))
         else
           (let s1 = s\<lparr>ltc_buf_len := ltc_buf_len s + enc_samples,
                       ltc_enc_cnt := (if ltc_speed s < 0 then ltc_enc_cnt s - fptcf / 10
                                       else ltc_enc_cnt s + fptcf / 10)\<rparr>
            in Continue
                 (if ltc_speed s1 \<ge> 0 then
                    (let s2 = s1\<lparr>ltc_enc_byte := c_rem (ltc_enc_byte s1 + 1) 10\<rparr>
                     in if ltc_enc_byte s2 = 0 \<and> ltc_speed s2 \<noteq> 0 then
                          (ltc_tx_recalculate_position L H
                             (s2\<lparr>ltc_encoder := ltc_encoder_inc_timecode L (ltc_encoder s2)\<rparr>))
                            \<lparr>ltc_enc_cnt := 0\<rparr>
                        else if ltc_enc_byte s2 = 0 then s2\<lparr>ltc_enc_cnt := 0, restarting := False\<rparr>
                        else s2)
                  else s1)))"

text \<open>Lines 622 to 638: filler while restarting, the encoder otherwise.\<close>

definition fill_buffer :: "'e libltc \<Rightarrow> host \<Rightarrow> 'e session \<Rightarrow> ('e session, 'e session) flow" where
  "fill_buffer L H s =
     (if restarting s then
        (let enc_samples = c_trunc (samples_per_timecode_frame H / 10)
         in account_encoded L H
              (s\<lparr>ltc_enc_buf := memset (ltc_enc_buf s) (ltc_buf_len s) 127 enc_samples\<rparr>)
              enc_samples)
      else
        (case ltc_encoder_encode_byte L (ltc_encoder s) (ltc_enc_byte s)
                (if ltc_speed s = 0 then 1 else 1 / ltc_speed s) of
           (True, e) \<Rightarrow>
             Return (ltc_tx_reset L
                       ((trace (TX_encoder_error (ltc_enc_byte s)) s)
                          \<lparr>ltc_encoder := ltc_encoder_buffer_flush L e\<rparr>))
         | (False, e) \<Rightarrow>
             (case ltc_encoder_get_buffer L e of
                (xs, e') \<Rightarrow>
                  account_encoded L H
                    (s\<lparr>ltc_encoder := e',
                       ltc_enc_buf := copy_samples (ltc_enc_buf s) (ltc_buf_len s) xs\<rparr>)
                    (int (length xs)))))"

definition encode_byte :: "'e libltc \<Rightarrow> host \<Rightarrow> 'e session \<Rightarrow> ('e session, 'e session) flow" where
  "encode_byte L H s = fill_buffer L H (step_back L H s)"

text \<open>
  Lines 588 to 676, the loop \<open>while (1)\<close>: one call is one turn of the loop. The turn that
  fills the output buffer writes the last line of the trace and leaves the loop.
\<close>

function encode_and_output ::
  "'e libltc \<Rightarrow> host \<Rightarrow> nat \<Rightarrow> 'e session \<Rightarrow> real list \<Rightarrow> nat \<Rightarrow> 'e session \<times> real list" where
  "encode_and_output L H n_samples s out txf =
     (case send_remaining (ltc_output_volume H / 90) n_samples s out txf of
        (s1, out1, txf1) \<Rightarrow>
          if txf1 \<ge> n_samples then (trace (TX_done txf1) s1, out1)
          else (case encode_byte L H s1 of
                  Return s2 \<Rightarrow> (s2, out1)
                | Continue s2 \<Rightarrow> encode_and_output L H n_samples s2 out1 txf1))"
  by pat_completeness auto
termination
proof (relation "measure (\<lambda>(L, H, n, s, out, txf). 2 * (n - txf) + (if ltc_buf_off s < ltc_buf_len s then 0 else 1))",
       goal_cases)
  case 1
  show ?case by simp
next
  case (2 L H n s out txf s1 y1 out1 txf1 s2)
  then have run: "send_remaining (ltc_output_volume H / 90) n s out txf = (s1, out1, txf1)"
    by simp
  have sr: "txf \<le> txf' \<and> (txf' = txf \<longrightarrow> \<not> (ltc_buf_off s < ltc_buf_len s \<and> txf < m))"
    if "send_remaining v m s out txf = (s', out', txf')"
    for v m and s s' :: "'a session" and out txf out' txf'
    using that
  proof (induction v m s out txf rule: send_remaining.induct)
    case (1 v m s out txf)
    show ?case
    proof (cases "ltc_buf_off s < ltc_buf_len s \<and> txf < m")
      case True
      with 1 show ?thesis
        by (subst (asm) (2) send_remaining.simps) (fastforce simp: Let_def)
    next
      case False
      with 1(2) show ?thesis
        by (subst (asm) send_remaining.simps) auto
    qed
  qed
  have acc: "\<And>s e r. account_encoded L H s e = Continue r \<Longrightarrow> ltc_buf_off s = 0 \<Longrightarrow> ltc_buf_len s = 0
               \<Longrightarrow> ltc_buf_off r < ltc_buf_len r"
    by (auto simp: account_encoded_def Let_def ltc_tx_recalculate_position_def split: if_splits)
  have sb: "ltc_buf_off (step_back L H s1) = 0 \<and> ltc_buf_len (step_back L H s1) = 0"
    by (simp add: step_back_def Let_def ltc_tx_recalculate_position_def)
  from 2 have enc: "ltc_buf_off s2 < ltc_buf_len s2"
    using sb
    by (auto simp: encode_byte_def fill_buffer_def Let_def split: if_splits prod.splits bool.splits
             dest!: acc)
  from 2 sr [OF run]
  have "txf \<le> txf1" "txf1 = txf \<longrightarrow> \<not> (ltc_buf_off s < ltc_buf_len s \<and> txf < n)" "txf1 < n"
    by auto
  with enc show ?case by auto
qed

declare encode_and_output.simps [simp del]

subsection \<open>The function\<close>

text \<open>Lines 425 to 584, then the loop.\<close>

definition align_and_output ::
  "'e libltc \<Rightarrow> host \<Rightarrow> 'e session \<Rightarrow> int \<Rightarrow> real \<Rightarrow> nat \<Rightarrow> real list \<Rightarrow> 'e session \<times> real list" where
  "align_and_output L H s cycle_start poff n_samples out =
     (let tc_start = sample_to_timecode H cycle_start
                       (ltc_timecode_negative_offset s) (ltc_timecode_offset s);
          tc_sample_start = timecode_to_sample H tc_start
                       (ltc_timecode_negative_offset s) (ltc_timecode_offset s);
          soff = (if ltc_speed s = 0 then 0 else cycle_start - tc_sample_start)
      in case alignment_branch H s cycle_start poff of
           Realign \<Rightarrow>
             (case realign L H s cycle_start tc_start tc_sample_start soff n_samples out of
                Return s' \<Rightarrow> (s', out)
              | Continue (s', txf, out') \<Rightarrow> encode_and_output L H n_samples s' out' txf)
         | Reduce_jitter \<Rightarrow>
             encode_and_output L H n_samples (reduce_jitter H s cycle_start poff) out 0
         | Keep \<Rightarrow> encode_and_output L H n_samples s out 0)"

text \<open>
  \<open>Session::send_ltc_for_cycle\<close>. The result is the state and the output buffer of the
  port (no buffer, \<open>[]\<close>, when there is no port); \<open>None\<close> when the call does not come back:
  the assertion \<open>n_samples > 0\<close> fails, or the loop of insertions does not end. The trace
  starts empty at each call.
\<close>

definition send_ltc_for_cycle ::
  "'e libltc \<Rightarrow> host \<Rightarrow> 'e session \<Rightarrow> int \<Rightarrow> int \<Rightarrow> nat \<Rightarrow> ('e session \<times> real list) option" where
  "send_ltc_for_cycle L H st start_sample end_sample n_samples =
     (if n_samples = 0 then None
      else
        (let s = st\<lparr>tx_log := []\<rparr>; silence = replicate n_samples 0
         in if \<not> has_ltc_output_port H then Some (s, [])
            else if \<not> has_ltc_encoder s \<or> \<not> has_ltc_enc_buf s then Some (s, silence)
            else if \<not> has_transport_master H then Some (s, silence)
            else if freewheeling H \<or> \<not> send_ltc H \<or> (external_sync H \<and> sync_src_is_MIDIClock H)
            then Some (s, silence)
            else
              (case check_fps L H s of
                 Return s' \<Rightarrow> Some (s', silence)
               | Continue s1 \<Rightarrow>
                   if timecode_to_frames_per_second H (timecode_format H) > 30
                   then Some (s1, silence)
                   else
                     (let raw_speed = block_speed start_sample end_sample n_samples;
                          cycle_start = cycle_start_sample L H s1 start_sample raw_speed;
                          new_ltc_speed = rescale_speed H raw_speed
                      in case speed_and_direction L H s1 start_sample end_sample new_ltc_speed of
                           Return s' \<Rightarrow> Some (s', silence)
                         | Continue (s2, speed, speed_changed) \<Rightarrow>
                             (case resample_buffer L s2 speed speed_changed of
                                None \<Rightarrow> None
                              | Some (s3, poff) \<Rightarrow>
                                  Some (align_and_output L H
                                          (s3\<lparr>ltc_prev_cycle := start_sample, ltc_speed := speed\<rparr>)
                                          cycle_start poff n_samples silence))))))"

text \<open>
  \<open>Session::ltc_tx_initialize\<close>, given the encoder that \<open>ltc_encoder_create\<close> made and the
  latency of the port: the state before the first block.
\<close>

definition ltc_tx_initialize :: "'e libltc \<Rightarrow> host \<Rightarrow> 'e \<Rightarrow> int \<Rightarrow> 'e session" where
  "ltc_tx_initialize L H e latency_max =
     (ltc_tx_reset L
        (ltc_tx_parse_offset H
           \<lparr>has_ltc_encoder = True,
            ltc_encoder = ltc_encoder_set_filter L e (LTC_RISE_TIME H 1),
            has_ltc_enc_buf = True, ltc_enc_buf = (\<lambda>i. 0),
            ltc_enc_tcformat = timecode_format H,
            ltc_buf_off = 0, ltc_buf_len = 0, ltc_speed = 0, ltc_enc_byte = 0,
            ltc_enc_pos = 0, ltc_enc_cnt = 0, restarting = False, ltc_prev_cycle = - 1,
            ltc_timecode_offset = 0, ltc_timecode_negative_offset = False,
            ltc_out_latency_max = latency_max, tx_log = []\<rparr>))
       \<lparr>restarting := False\<rparr>"

subsection \<open>A small instance\<close>

text \<open>
  An instance to run the function on: 500 samples per second and 25 frames per second, so
  that a frame has 20 samples and a byte 2. The encoder is a counter of the bytes it was
  asked to encode; it hands out two samples of level 200 for each byte and reports an
  error from the call number \<open>k\<close> on. The conversions between positions and timecode are
  those of 25 frames per second without offset.
\<close>

definition toy_lib :: "nat \<Rightarrow> nat libltc" where
  "toy_lib k =
     \<lparr>ltc_encoder_reset = (\<lambda>e. e),
      ltc_encoder_reinit = (\<lambda>e sr fps std. if fps < 24 then None else Some e),
      ltc_encoder_set_filter = (\<lambda>e r. e),
      ltc_encoder_set_timecode = (\<lambda>e tc. e),
      ltc_encoder_get_timecode =
        (\<lambda>e. \<lparr>smpte_hours = 0, smpte_mins = 0, smpte_secs = 0, smpte_frame = 0\<rparr>),
      ltc_encoder_force_dfbit = (\<lambda>e b. e),
      ltc_encoder_inc_timecode = (\<lambda>e. e),
      ltc_encoder_dec_timecode = (\<lambda>e. e),
      ltc_encoder_encode_byte = (\<lambda>e b sp. (k \<le> e, Suc e)),
      ltc_encoder_get_buffer = (\<lambda>e. ([200, 200], e)),
      ltc_encoder_buffer_flush = (\<lambda>e. e),
      ltc_frame_alignment = (\<lambda>spf std. 0)\<rparr>"

definition toy_host :: host where
  "toy_host =
     \<lparr>has_ltc_output_port = True, has_transport_master = True, sync_src_is_MIDIClock = False,
      freewheeling = False, send_ltc = True, external_sync = False, ltc_output_volume = 45,
      timecode_format = timecode_25, nominal_sample_rate = 500, sample_rate = 500,
      engine_sample_rate = 500, ltc_send_continuously = True, samples_per_timecode_frame = 20,
      transport_master_is_external = False, transport_master_resolution = 0,
      generator_offset = 0, generator_offset_negative = False,
      timecode_to_frames_per_second = (\<lambda>f. if f = timecode_23976 then 20 else 25),
      timecode_has_drop_frames = (\<lambda>f. False),
      sample_to_timecode = (\<lambda>c neg off.
         \<lparr>hours = nat (c div 1800000), minutes = nat (c div 30000 mod 60),
          seconds = nat (c div 500 mod 60), frames = nat (c div 20 mod 25),
          rate = 25, drop_frames = False\<rparr>),
      timecode_to_sample = (\<lambda>tc neg off.
         ((int (hours tc) * 3600 + int (minutes tc) * 60 + int (seconds tc)) * 25
          + int (frames tc)) * 20)\<rparr>"

text \<open>The state before the first block, and the state of a generator that runs.\<close>

definition cold :: "nat session" where
  "cold = ltc_tx_initialize (toy_lib 100) toy_host 0 0"

subsection \<open>Consecutive blocks\<close>

text \<open>
  The process callback calls the function once per block. A block is given by what the
  function reads and by its three arguments; the result is the trace and the output
  buffer of each block, in order.
\<close>

type_synonym block = "host \<times> int \<times> int \<times> nat"

fun send_blocks ::
  "'e libltc \<Rightarrow> 'e session \<Rightarrow> block list \<Rightarrow> ('e session \<times> (event list \<times> real list) list) option" where
  "send_blocks L s [] = Some (s, [])"
| "send_blocks L s ((H, start_sample, end_sample, n_samples) # bs) =
     (case send_ltc_for_cycle L H s start_sample end_sample n_samples of
        None \<Rightarrow> None
      | Some (s1, out) \<Rightarrow>
          (case send_blocks L s1 bs of
             None \<Rightarrow> None
           | Some (s2, outs) \<Rightarrow> Some (s2, (tx_log s1, out) # outs)))"

text \<open>The trace and the output buffer of one call.\<close>

definition view :: "('e session \<times> real list) option \<Rightarrow> (event list \<times> real list) option" where
  "view r = map_option (\<lambda>(s, out). (tx_log s, out)) r"

subsection \<open>Predicates on the state\<close>

text \<open>The read offset is within the length of the buffer, and the byte index is a digit.\<close>

definition buffer_invariant :: "'e session \<Rightarrow> bool" where
  "buffer_invariant s = (ltc_buf_off s \<le> ltc_buf_len s \<and> 0 \<le> ltc_enc_byte s \<and> ltc_enc_byte s \<le> 9)"

text \<open>
  The end of a block whose encoder failed, seen from the state \<open>s\<close> before: the trace
  ends with the failure and the reset, and the state is the one \<open>ltc_tx_reset\<close> leaves.
\<close>

definition aborted :: "'e session \<Rightarrow> 'e session \<Rightarrow> bool" where
  "aborted s s' =
     ((tx_log s' = tx_log s @ [TX_empty_buffer, TX_reset]
       \<or> (\<exists>b. tx_log s' = tx_log s @ [TX_encoder_error b, TX_reset]))
      \<and> ltc_enc_pos s' = - 9999 \<and> ltc_buf_len s' = 0 \<and> ltc_buf_off s' = 0
      \<and> ltc_enc_byte s' = 0 \<and> ltc_enc_cnt s' = 0)"

text \<open>
  A bound on the turns left in the loop of insertions: an insertion lowers the first
  summand, a turn without insertion the second.
\<close>

definition insert_measure :: "real \<Rightarrow> 'e session \<Rightarrow> int \<Rightarrow> int \<Rightarrow> nat" where
  "insert_measure avg s rp k =
     nat \<lceil>(real_of_int (rp - ltc_buf_off s) - real_of_int k * avg
            + real_of_int (ltc_buf_len s - 1 - rp)) / (avg - 1)\<rceil>
     + nat (ltc_buf_len s - 1 - rp)"

text \<open>The lines of the trace written before the alignment (stages 1 and 2, resampling).\<close>

fun early_event :: "event \<Rightarrow> bool" where
  "early_event (TX_realign a b c) = False"
| "early_event (TX_restart_encoder a b c) = False"
| "early_event (TX_encoder_error b) = False"
| "early_event TX_empty_buffer = False"
| "early_event (TX_done k) = False"
| "early_event ev = True"

text \<open>
  What a re-alignment computes, written out: the byte that covers the offset \<open>soff\<close> in
  the frame (rounded down when the speed is negative, up otherwise), the offset in the
  block at which that byte starts, the encoder after its reset with the timecode of the
  aligned start (hours modulo 24) and the drop-frame bit of the format, and the state that
  the re-alignment leaves when it gets as far as line 549.
\<close>

definition start_byte :: "host \<Rightarrow> 'e session \<Rightarrow> int \<Rightarrow> int" where
  "start_byte H s soff =
     (if ltc_speed s < 0 then \<lfloor>10 * real_of_int soff / samples_per_timecode_frame H\<rfloor>
      else \<lceil>10 * real_of_int soff / samples_per_timecode_frame H\<rceil>)"

definition start_offset :: "host \<Rightarrow> 'e session \<Rightarrow> int \<Rightarrow> int" where
  "start_offset H s soff =
     (if ltc_speed s < 0
      then soff - \<lceil>real_of_int (start_byte H s soff) * samples_per_timecode_frame H / 10\<rceil>
      else \<lceil>real_of_int (start_byte H s soff) * samples_per_timecode_frame H / 10\<rceil> - soff)"

definition seeded :: "'e libltc \<Rightarrow> host \<Rightarrow> 'e session \<Rightarrow> Time \<Rightarrow> 'e" where
  "seeded L H s tc =
     ltc_encoder_force_dfbit L
       (ltc_encoder_set_timecode L (ltc_encoder_reset L (ltc_encoder s))
          \<lparr>smpte_hours = hours tc mod 24, smpte_mins = minutes tc,
           smpte_secs = seconds tc, smpte_frame = frames tc\<rparr>)
       (timecode_has_drop_frames H (timecode_format H))"

definition realigned ::
  "'e libltc \<Rightarrow> host \<Rightarrow> 'e session \<Rightarrow> int \<Rightarrow> Time \<Rightarrow> int \<Rightarrow> int \<Rightarrow> 'e session \<Rightarrow> bool" where
  "realigned L H s cycle_start tc tcs soff s' =
     (tx_log s' = tx_log s @ [TX_reset, TX_realign cycle_start tcs soff,
                              TX_restart_encoder soff (ltc_enc_byte s') (start_offset H s soff)]
      \<and> ltc_enc_byte s' = (if start_byte H s soff = 10 then 0 else start_byte H s soff)
      \<and> ltc_encoder s' = (if start_byte H s soff = 10
                           then ltc_encoder_inc_timecode L (seeded L H s tc) else seeded L H s tc)
      \<and> ltc_enc_cnt s' = real_of_int (start_byte H s soff) * samples_per_timecode_frame H / 10
      \<and> ltc_buf_len s' = 0 \<and> ltc_buf_off s' = 0
      \<and> restarting s' = (restarting s \<or> (if ltc_speed s < 0 then ltc_enc_byte s' \<noteq> 9
                                           else ltc_enc_byte s' \<noteq> 0))
      \<and> has_ltc_encoder s' = has_ltc_encoder s \<and> has_ltc_enc_buf s' = has_ltc_enc_buf s
      \<and> ltc_speed s' = ltc_speed s)"

text \<open>
  The last lines of the trace of a block that got to the alignment, with what they tell:
  nothing more (the start lies outside the block), a reset (the offset in the frame is
  out of range), the line of a full block, or the failure of the encoder followed by the
  reset, with the state reset and silence from some index of the block on.
\<close>

definition block_end :: "nat \<Rightarrow> 'e session \<Rightarrow> real list \<Rightarrow> event list \<Rightarrow> bool" where
  "block_end n s' out' fin =
     (fin = [] \<or> fin = [TX_reset] \<or> (\<exists>k\<ge>n. fin = [TX_done k])
      \<or> ((fin = [TX_empty_buffer, TX_reset] \<or> (\<exists>b. fin = [TX_encoder_error b, TX_reset]))
         \<and> ltc_enc_pos s' = - 9999 \<and> ltc_buf_len s' = 0 \<and> ltc_buf_off s' = 0
         \<and> ltc_enc_byte s' = 0 \<and> ltc_enc_cnt s' = 0
         \<and> (\<exists>k<n. \<forall>j. k \<le> j \<and> j < n \<longrightarrow> out' ! j = 0)))"

text \<open>The checks of lines 172 to 202 all pass: the function gets to the timecode format.\<close>

definition generator_on :: "host \<Rightarrow> 'e session \<Rightarrow> bool" where
  "generator_on H s =
     (has_ltc_output_port H \<and> has_ltc_encoder s \<and> has_ltc_enc_buf s \<and> has_transport_master H
      \<and> \<not> freewheeling H \<and> send_ltc H \<and> \<not> (external_sync H \<and> sync_src_is_MIDIClock H))"

text \<open>
  The lines that stage 2 writes, from the state before it: line 318 decides whether the
  block counts as not rolling.
\<close>

definition not_rolling :: "int \<Rightarrow> int \<Rightarrow> real \<Rightarrow> bool" where
  "not_rolling a b v0 = (b = a \<or> \<bar>v0\<bar> < 1 / 10)"

definition bounds_log :: "'e session \<Rightarrow> real \<Rightarrow> event list" where
  "bounds_log s v =
     (if \<bar>v\<bar> > 10 then [TX_out_of_bounds, TX_reset]
      else if ltc_speed s = 0 \<and> v \<noteq> 0 then [TX_started_rolling, TX_reset] else [])"

definition stage2_log :: "host \<Rightarrow> 'e session \<Rightarrow> int \<Rightarrow> int \<Rightarrow> real \<Rightarrow> event list" where
  "stage2_log H s a b v0 =
     (if SIGNUM v0 \<noteq> SIGNUM (ltc_speed s) then [TX_direction_changed, TX_reset] else [])
     @ (if not_rolling a b v0 then
          TX_not_rolling #
            (if ltc_send_continuously H
             then (if a \<noteq> ltc_prev_cycle s then [TX_no_roll_seek, TX_reset] else [])
                  @ bounds_log s 0
             else [])
        else bounds_log s v0)"

subsection \<open>Statements of the specification, in its own words\<close>

text \<open>
  The specification applies the correction of the speed when no re-alignment happened and
  the duration of one byte (a tenth of a frame) at the current speed exceeds 3 samples.
\<close>

definition spec_soft_correction :: "host \<Rightarrow> 'e session \<Rightarrow> int \<Rightarrow> real \<Rightarrow> bool" where
  "spec_soft_correction H s cycle_start poff =
     (\<not> alignment_mismatch H s cycle_start poff
      \<and> samples_per_timecode_frame H / \<bar>ltc_speed s\<bar> / 10 > 3)"

text \<open>
  The tolerance of the specification, \<open>2 * ceil |speed|\<close>, times 3 when the two sample
  rates differ, times 15 for the two formats near 24 frames per second, or the resolution
  of an external transport master; and its condition of a hard resync for a block whose
  previous speed is \<open>s\<close>: the position is the sentinel, or \<open>s\<close> is not 0 and the
  expected position differs from the aligned start by more than the tolerance at \<open>s\<close>.
\<close>

definition spec_tolerance :: "host \<Rightarrow> real \<Rightarrow> real" where
  "spec_tolerance H speed =
     (if transport_master_is_external H then real_of_int (transport_master_resolution H)
      else 2 * real_of_int \<lceil>\<bar>speed\<bar>\<rceil>
           * (if nominal_sample_rate H \<noteq> sample_rate H then 3 else 1)
           * (if timecode_format H = timecode_23976 \<or> timecode_format H = timecode_24976
              then 15 else 1))"

definition spec_hard_resync :: "host \<Rightarrow> 'e session \<Rightarrow> real \<Rightarrow> int \<Rightarrow> bool" where
  "spec_hard_resync H st s aligned_start =
     (ltc_enc_pos st = - 9999
      \<or> (s \<noteq> 0
         \<and> \<bar>fmod (real_of_int \<lceil>real_of_int (ltc_enc_pos st) + ltc_enc_cnt st
                                - real_of_int (ltc_buf_len st - ltc_buf_off st) * s\<rceil>)
                  (real_of_int (wrap24h H))
             - real_of_int (c_rem aligned_start (wrap24h H))\<bar> > spec_tolerance H s))"

text \<open>The small instance with a format that its encoder does not accept.\<close>

definition unrepresentable :: host where
  "unrepresentable = toy_host\<lparr>timecode_format := timecode_23976\<rparr>"

text \<open>The small instance after a change of the session's frame rate to 10 samples per frame.\<close>

definition short_frames :: host where
  "short_frames = toy_host\<lparr>samples_per_timecode_frame := 10\<rparr>"

text \<open>
  A state of the small instance that runs at speed 1 with an empty buffer, and whose
  encoder is at position 100.
\<close>

definition drifted :: "nat session" where
  "drifted = cold\<lparr>ltc_speed := 1, ltc_enc_pos := 100, ltc_prev_cycle := 93\<rparr>"


section \<open>Properties\<close>

subsection \<open>Running the small instance\<close>

lemmas toy_defs = toy_lib_def toy_host_def cold_def ltc_tx_initialize_def

lemmas stage_defs =
  send_ltc_for_cycle_def check_fps_def block_speed_def cycle_start_sample_def rescale_speed_def
  speed_and_direction_def speed_bounds_def resample_buffer_def buffered_duration_def
  align_and_output_def alignment_branch_def alignment_mismatch_def jitter_correctable_def
  reduce_jitter_def maxdiff_def wrap24h_def realign_def seed_encoder_def byte_alignment_def
  encode_byte_def step_back_def fill_buffer_def account_encoded_def
  ltc_tx_reset_def ltc_tx_cleanup_def ltc_tx_parse_offset_def ltc_tx_recalculate_position_def
  trace_def LTC_RISE_TIME_def TV_STANDARD_def SIGNUM_def c_trunc_def c_rem_def fmod_def rint_def
  memset_def memmove_def copy_samples_def Let_def

lemma replicate_4: "replicate 4 x = [x, x, x, x]"
  by (simp add: numeral_eq_Suc)

lemma replicate_3: "replicate 3 x = [x, x, x]"
  by (simp add: numeral_eq_Suc)

lemmas run_simps = view_def toy_defs stage_defs encode_and_output.simps send_remaining.simps replicate_4 replicate_3

subsection \<open>The aligned start of a block\<close>

lemma block_speed_sign:
  assumes "0 < n"
  shows "(0 < block_speed a b n) = (a < b)" and "(block_speed a b n < 0) = (b < a)"
    and "(block_speed a b n = 0) = (a = b)"
  using assms by (auto simp: block_speed_def zero_less_divide_iff divide_less_0_iff)

text \<open>
  C3. For a block from \<open>start_sample\<close> to \<open>end_sample\<close> of \<open>n_samples > 0\<close> samples, the
  aligned start is the start of the block plus the maximal latency of the port when the
  block runs forwards, minus that latency when it runs backwards, and the start itself
  when the transport stands; a block that moves is shifted back further by the frame
  alignment of the TV standard; the result is clamped at 0.
\<close>

theorem aligned_start_of_block:
  assumes "0 < n_samples"
  shows "cycle_start_sample L H s start_sample (block_speed start_sample end_sample n_samples) =
           max 0 (if start_sample < end_sample
                  then start_sample + ltc_out_latency_max s
                       - ltc_frame_alignment L (samples_per_timecode_frame H)
                           (TV_STANDARD H (timecode_format H))
                  else if end_sample < start_sample
                  then start_sample - ltc_out_latency_max s
                       - ltc_frame_alignment L (samples_per_timecode_frame H)
                           (TV_STANDARD H (timecode_format H))
                  else start_sample)"
proof -
  let ?v = "block_speed start_sample end_sample n_samples"
  consider "start_sample < end_sample" | "end_sample < start_sample" | "start_sample = end_sample"
    by linarith
  then show ?thesis
  proof cases
    case 1
    then have "0 < ?v" using assms by (simp add: block_speed_sign)
    with 1 show ?thesis by (simp add: cycle_start_sample_def Let_def max_def)
  next
    case 2
    then have "?v < 0" using assms by (simp add: block_speed_sign)
    with 2 show ?thesis by (simp add: cycle_start_sample_def Let_def max_def)
  next
    case 3
    then have "?v = 0" using assms by (simp add: block_speed_sign)
    with 3 show ?thesis by (simp add: cycle_start_sample_def Let_def max_def)
  qed
qed

theorem aligned_start_of_block_witness:
  "(0::nat) < 4
   \<and> cycle_start_sample ((toy_lib 1)\<lparr>ltc_frame_alignment := (\<lambda>spf std. 3)\<rparr>) toy_host
        (cold\<lparr>ltc_out_latency_max := 7\<rparr>) 100 (block_speed 100 96 4) = 90
   \<and> cycle_start_sample ((toy_lib 1)\<lparr>ltc_frame_alignment := (\<lambda>spf std. 3)\<rparr>) toy_host
        (cold\<lparr>ltc_out_latency_max := 7\<rparr>) 5 (block_speed 5 1 4) = 0"
  using aligned_start_of_block [of 4 "(toy_lib 1)\<lparr>ltc_frame_alignment := (\<lambda>spf std. 3)\<rparr>" toy_host
          "cold\<lparr>ltc_out_latency_max := 7\<rparr>" 100 96]
        aligned_start_of_block [of 4 "(toy_lib 1)\<lparr>ltc_frame_alignment := (\<lambda>spf std. 3)\<rparr>" toy_host
          "cold\<lparr>ltc_out_latency_max := 7\<rparr>" 5 1]
  by simp

subsection \<open>The samples sent from the buffer\<close>

lemma send_remaining_stop:
  "\<not> (ltc_buf_off s < ltc_buf_len s \<and> txf < n) \<Longrightarrow> send_remaining v n s out txf = (s, out, txf)"
  by (subst send_remaining.simps) auto

lemma send_remaining_step:
  "ltc_buf_off s < ltc_buf_len s \<Longrightarrow> txf < n \<Longrightarrow>
   send_remaining v n s out txf =
     send_remaining v n (s\<lparr>ltc_buf_off := ltc_buf_off s + 1\<rparr>)
       (out[txf := (real (unat (ltc_enc_buf s (ltc_buf_off s))) - 128) * v]) (txf + 1)"
  by (subst send_remaining.simps) (simp add: Let_def)

lemma send_remaining_props:
  assumes "send_remaining v n s out txf = (s', out', txf')"
  shows "s' = s\<lparr>ltc_buf_off := ltc_buf_off s + int (txf' - txf)\<rparr>
         \<and> txf \<le> txf' \<and> length out' = length out
         \<and> (txf' < n \<longrightarrow> ltc_buf_len s \<le> ltc_buf_off s')
         \<and> (ltc_buf_off s \<le> ltc_buf_len s \<longrightarrow> ltc_buf_off s' \<le> ltc_buf_len s)
         \<and> (txf \<le> n \<longrightarrow> txf' \<le> n)
         \<and> (\<forall>j. j < txf \<or> txf' \<le> j \<longrightarrow> out' ! j = out ! j)
         \<and> (\<forall>j. txf \<le> j \<and> j < txf' \<and> j < length out \<longrightarrow>
               out' ! j = (real (unat (ltc_enc_buf s (ltc_buf_off s + int (j - txf)))) - 128) * v)"
  using assms
proof (induction v n s out txf rule: send_remaining.induct)
  case (1 v n s out txf)
  show ?case
  proof (cases "ltc_buf_off s < ltc_buf_len s \<and> txf < n")
    case False
    with 1(2) have "s' = s" "out' = out" "txf' = txf"
      by (simp_all add: send_remaining_stop)
    with False show ?thesis by auto
  next
    case True
    let ?val = "(real (unat (ltc_enc_buf s (ltc_buf_off s))) - 128) * v"
    let ?s1 = "s\<lparr>ltc_buf_off := ltc_buf_off s + 1\<rparr>"
    from True 1(2) have run: "send_remaining v n ?s1 (out[txf := ?val]) (txf + 1) = (s', out', txf')"
      by (simp add: send_remaining_step)
    from 1(1) [OF True refl refl run]
    have ih: "s' = ?s1\<lparr>ltc_buf_off := ltc_buf_off ?s1 + int (txf' - (txf + 1))\<rparr>"
      "txf + 1 \<le> txf'" "length out' = length (out[txf := ?val])"
      "txf' < n \<longrightarrow> ltc_buf_len ?s1 \<le> ltc_buf_off s'"
      "ltc_buf_off ?s1 \<le> ltc_buf_len ?s1 \<longrightarrow> ltc_buf_off s' \<le> ltc_buf_len ?s1"
      "txf + 1 \<le> n \<longrightarrow> txf' \<le> n"
      "\<forall>j. j < txf + 1 \<or> txf' \<le> j \<longrightarrow> out' ! j = (out[txf := ?val]) ! j"
      "\<forall>j. txf + 1 \<le> j \<and> j < txf' \<and> j < length (out[txf := ?val]) \<longrightarrow>
               out' ! j = (real (unat (ltc_enc_buf ?s1 (ltc_buf_off ?s1 + int (j - (txf + 1))))) - 128) * v"
      by blast+
    have a: "s' = s\<lparr>ltc_buf_off := ltc_buf_off s + int (txf' - txf)\<rparr>"
      using ih(1,2) by (simp add: of_nat_diff algebra_simps)
    have g: "\<forall>j. txf \<le> j \<and> j < txf' \<and> j < length out \<longrightarrow>
               out' ! j = (real (unat (ltc_enc_buf s (ltc_buf_off s + int (j - txf)))) - 128) * v"
    proof (intro allI impI)
      fix j assume j: "txf \<le> j \<and> j < txf' \<and> j < length out"
      show "out' ! j = (real (unat (ltc_enc_buf s (ltc_buf_off s + int (j - txf)))) - 128) * v"
      proof (cases "j = txf")
        case True
        then show ?thesis using ih(7) j by simp
      next
        case False
        with j have "txf + 1 \<le> j" by simp
        moreover from this have "1 + int (j - (txf + 1)) = int (j - txf)" by simp
        ultimately show ?thesis using ih(8) j by (simp add: add.assoc)
      qed
    qed
    from a ih(2-7) g True show ?thesis by auto
  qed
qed

subsection \<open>Fields that the small functions leave alone\<close>

lemma step_back_buffer [simp]:
  "ltc_buf_off (step_back L H s) = 0" "ltc_buf_len (step_back L H s) = 0"
  by (simp_all add: step_back_def Let_def ltc_tx_recalculate_position_def)

lemma step_back_restarting:
  "ltc_speed s \<ge> 0 \<or> c_rem (ltc_enc_byte s + 9) 10 \<noteq> 9 \<Longrightarrow>
   restarting (step_back L H s) = restarting s"
  by (auto simp: step_back_def Let_def)

lemma step_back_frame [simp]:
  "tx_log (step_back L H s) = tx_log s"
  "has_ltc_encoder (step_back L H s) = has_ltc_encoder s"
  "has_ltc_enc_buf (step_back L H s) = has_ltc_enc_buf s"
  "ltc_speed (step_back L H s) = ltc_speed s"
  by (simp_all add: step_back_def Let_def ltc_tx_recalculate_position_def)

lemma ltc_tx_reset_fields [simp]:
  "ltc_enc_pos (ltc_tx_reset L s) = - 9999"
  "ltc_buf_len (ltc_tx_reset L s) = 0"
  "ltc_buf_off (ltc_tx_reset L s) = 0"
  "ltc_enc_byte (ltc_tx_reset L s) = 0"
  "ltc_enc_cnt (ltc_tx_reset L s) = 0"
  "tx_log (ltc_tx_reset L s) = tx_log s @ [TX_reset]"
  "has_ltc_encoder (ltc_tx_reset L s) = has_ltc_encoder s"
  "has_ltc_enc_buf (ltc_tx_reset L s) = has_ltc_enc_buf s"
  "ltc_speed (ltc_tx_reset L s) = ltc_speed s"
  "ltc_prev_cycle (ltc_tx_reset L s) = ltc_prev_cycle s"
  "restarting (ltc_tx_reset L s) = restarting s"
  "ltc_enc_buf (ltc_tx_reset L s) = ltc_enc_buf s"
  "ltc_enc_tcformat (ltc_tx_reset L s) = ltc_enc_tcformat s"
  "ltc_out_latency_max (ltc_tx_reset L s) = ltc_out_latency_max s"
  by (simp_all add: ltc_tx_reset_def trace_def)

lemma trace_fields [simp]:
  "tx_log (trace ev s) = tx_log s @ [ev]"
  "ltc_enc_pos (trace ev s) = ltc_enc_pos s"
  "ltc_buf_len (trace ev s) = ltc_buf_len s"
  "ltc_buf_off (trace ev s) = ltc_buf_off s"
  "ltc_enc_byte (trace ev s) = ltc_enc_byte s"
  "ltc_enc_cnt (trace ev s) = ltc_enc_cnt s"
  "has_ltc_encoder (trace ev s) = has_ltc_encoder s"
  "has_ltc_enc_buf (trace ev s) = has_ltc_enc_buf s"
  "ltc_speed (trace ev s) = ltc_speed s"
  "ltc_prev_cycle (trace ev s) = ltc_prev_cycle s"
  "restarting (trace ev s) = restarting s"
  "ltc_enc_buf (trace ev s) = ltc_enc_buf s"
  "ltc_encoder (trace ev s) = ltc_encoder s"
  "ltc_enc_tcformat (trace ev s) = ltc_enc_tcformat s"
  "ltc_out_latency_max (trace ev s) = ltc_out_latency_max s"
  by (simp_all add: trace_def)

lemma c_rem_10_range: "0 \<le> b \<Longrightarrow> 0 \<le> c_rem b 10 \<and> c_rem b 10 \<le> 9"
  using pos_mod_bound [of 10 b] pos_mod_sign [of 10 b] by (auto simp: c_rem_def sgn_if)

text \<open>One refill: either the encoder fails and the state is reset, or the buffer is not empty.\<close>

lemma encode_byte_Return:
  assumes "encode_byte L H s = Return s'"
  shows "(tx_log s' = tx_log s @ [TX_empty_buffer, TX_reset]
          \<or> (\<exists>b. tx_log s' = tx_log s @ [TX_encoder_error b, TX_reset]))
         \<and> ltc_enc_pos s' = - 9999 \<and> ltc_buf_len s' = 0 \<and> ltc_buf_off s' = 0
         \<and> ltc_enc_byte s' = 0 \<and> ltc_enc_cnt s' = 0
         \<and> has_ltc_encoder s' = has_ltc_encoder s \<and> has_ltc_enc_buf s' = has_ltc_enc_buf s"
proof -
  let ?t = "step_back L H s"
  show ?thesis
  proof (cases "restarting ?t")
    case True
    with assms show ?thesis
      by (auto simp: encode_byte_def fill_buffer_def Let_def account_encoded_def split: if_splits)
  next
    case False
    obtain err e where eb: "ltc_encoder_encode_byte L (ltc_encoder ?t) (ltc_enc_byte ?t)
         (if ltc_speed ?t = 0 then 1 else 1 / ltc_speed ?t) = (err, e)"
      by (cases "ltc_encoder_encode_byte L (ltc_encoder ?t) (ltc_enc_byte ?t)
         (if ltc_speed ?t = 0 then 1 else 1 / ltc_speed ?t)") auto
    obtain xs e' where gb: "ltc_encoder_get_buffer L e = (xs, e')"
      by (cases "ltc_encoder_get_buffer L e") auto
    from assms False eb gb show ?thesis
      by (cases err) (auto simp: encode_byte_def fill_buffer_def Let_def account_encoded_def split: if_splits)
  qed
qed

lemma encode_byte_Continue:
  assumes "encode_byte L H s = Continue s'"
  shows "tx_log s' = tx_log s \<and> ltc_buf_off s' = 0 \<and> 0 < ltc_buf_len s'
         \<and> has_ltc_encoder s' = has_ltc_encoder s \<and> has_ltc_enc_buf s' = has_ltc_enc_buf s
         \<and> (0 \<le> ltc_enc_byte s \<and> ltc_enc_byte s \<le> 9 \<longrightarrow> 0 \<le> ltc_enc_byte s' \<and> ltc_enc_byte s' \<le> 9)"
proof -
  let ?t = "step_back L H s"
  have t: "0 \<le> ltc_enc_byte s \<and> ltc_enc_byte s \<le> 9 \<longrightarrow> 0 \<le> ltc_enc_byte ?t \<and> ltc_enc_byte ?t \<le> 9"
    using c_rem_10_range [of "ltc_enc_byte s + 9"]
    by (auto simp: step_back_def Let_def ltc_tx_recalculate_position_def)
  have acc: "tx_log r = tx_log u \<and> ltc_buf_off r = ltc_buf_off u \<and> ltc_buf_len u < ltc_buf_len r
       \<and> has_ltc_encoder r = has_ltc_encoder u \<and> has_ltc_enc_buf r = has_ltc_enc_buf u
       \<and> (0 \<le> ltc_enc_byte u \<and> ltc_enc_byte u \<le> 9 \<longrightarrow> 0 \<le> ltc_enc_byte r \<and> ltc_enc_byte r \<le> 9)"
    if "account_encoded L H u k = Continue r" for u r k
    using that c_rem_10_range [of "ltc_enc_byte u + 1"]
    by (auto simp: account_encoded_def Let_def ltc_tx_recalculate_position_def split: if_splits)
  show ?thesis
  proof (cases "restarting ?t")
    case True
    with assms have "account_encoded L H
        (?t\<lparr>ltc_enc_buf := memset (ltc_enc_buf ?t) (ltc_buf_len ?t) 127
                           (c_trunc (samples_per_timecode_frame H / 10))\<rparr>)
        (c_trunc (samples_per_timecode_frame H / 10)) = Continue s'"
      by (simp add: encode_byte_def fill_buffer_def Let_def)
    from acc [OF this] t show ?thesis by simp
  next
    case False
    obtain err e where eb: "ltc_encoder_encode_byte L (ltc_encoder ?t) (ltc_enc_byte ?t)
         (if ltc_speed ?t = 0 then 1 else 1 / ltc_speed ?t) = (err, e)"
      by (cases "ltc_encoder_encode_byte L (ltc_encoder ?t) (ltc_enc_byte ?t)
         (if ltc_speed ?t = 0 then 1 else 1 / ltc_speed ?t)") auto
    obtain xs e' where gb: "ltc_encoder_get_buffer L e = (xs, e')"
      by (cases "ltc_encoder_get_buffer L e") auto
    from assms False eb gb have "\<not> err" and
      "account_encoded L H
         (?t\<lparr>ltc_encoder := e', ltc_enc_buf := copy_samples (ltc_enc_buf ?t) (ltc_buf_len ?t) xs\<rparr>)
         (int (length xs)) = Continue s'"
      by (cases err; simp add: encode_byte_def fill_buffer_def)+
    from acc [OF this(2)] t show ?thesis by simp
  qed
qed

text \<open>
  The loop ends in one of two ways: the buffer of the port is full, or the encoder failed.
  In both cases the samples before the entry index are left alone; after a failure so are
  the samples from some index below \<open>n\<close> on.
\<close>

lemma encode_and_output_outcome:
  assumes "encode_and_output L H n s out txf = (s', out')"
  shows "length out' = length out \<and> (\<forall>j<txf. out' ! j = out ! j)
         \<and> has_ltc_encoder s' = has_ltc_encoder s \<and> has_ltc_enc_buf s' = has_ltc_enc_buf s
         \<and> (buffer_invariant s \<longrightarrow> buffer_invariant s')
         \<and> ((\<exists>k\<ge>n. tx_log s' = tx_log s @ [TX_done k])
            \<or> (aborted s s' \<and> (\<exists>k<n. txf \<le> k \<and> (\<forall>j\<ge>k. out' ! j = out ! j))))"
  using assms
proof (induction L H n s out txf arbitrary: s' out' rule: encode_and_output.induct)
  case (1 L H n s out txf)
  obtain s1 out1 txf1 where sr: "send_remaining (ltc_output_volume H / 90) n s out txf = (s1, out1, txf1)"
    by (cases "send_remaining (ltc_output_volume H / 90) n s out txf") auto
  from send_remaining_props [OF sr]
  have p: "s1 = s\<lparr>ltc_buf_off := ltc_buf_off s + int (txf1 - txf)\<rparr>" "txf \<le> txf1"
    "length out1 = length out" "ltc_buf_off s \<le> ltc_buf_len s \<longrightarrow> ltc_buf_off s1 \<le> ltc_buf_len s"
    "\<forall>j. j < txf \<or> txf1 \<le> j \<longrightarrow> out1 ! j = out ! j"
    by blast+
  from p(1) have f: "tx_log s1 = tx_log s" "has_ltc_encoder s1 = has_ltc_encoder s"
    "has_ltc_enc_buf s1 = has_ltc_enc_buf s" "ltc_enc_byte s1 = ltc_enc_byte s"
    "ltc_buf_len s1 = ltc_buf_len s"
    by simp_all
  have inv1: "buffer_invariant s \<longrightarrow> buffer_invariant s1"
    using p(4) f by (simp add: buffer_invariant_def)
  show ?case
  proof (cases "n \<le> txf1")
    case True
    with 1(2) sr have "s' = trace (TX_done txf1) s1" "out' = out1"
      by (simp_all add: encode_and_output.simps)
    with True p f inv1 show ?thesis by (auto simp: buffer_invariant_def)
  next
    case False
    show ?thesis
    proof (cases "encode_byte L H s1")
      case (Return s2)
      with 1(2) sr False have r: "s' = s2" "out' = out1"
        by (simp_all add: encode_and_output.simps)
      from encode_byte_Return [OF Return] f have "aborted s s2"
        by (simp add: aborted_def)
      moreover from encode_byte_Return [OF Return] have "buffer_invariant s2"
        by (simp add: buffer_invariant_def)
      moreover from False p have "txf1 < n \<and> txf \<le> txf1 \<and> (\<forall>j\<ge>txf1. out1 ! j = out ! j)"
        by auto
      ultimately show ?thesis using r p f encode_byte_Return [OF Return] by auto
    next
      case (Continue s2)
      with 1(2) sr False have run: "encode_and_output L H n s2 out1 txf1 = (s', out')"
        by (simp add: encode_and_output.simps)
      note ih = 1(1) [OF sr [symmetric] refl False Continue run]
      note c = encode_byte_Continue [OF Continue]
      have inv2: "buffer_invariant s \<longrightarrow> buffer_invariant s2"
        using inv1 c by (auto simp: buffer_invariant_def)
      have logs: "tx_log s2 = tx_log s" using c f by simp
      from ih have out: "length out' = length out" "\<forall>j<txf. out' ! j = out ! j"
        using p by auto
      from ih have "(\<exists>k\<ge>n. tx_log s' = tx_log s2 @ [TX_done k])
            \<or> (aborted s2 s' \<and> (\<exists>k<n. txf1 \<le> k \<and> (\<forall>j\<ge>k. out' ! j = out1 ! j)))"
        by blast
      then have fin: "(\<exists>k\<ge>n. tx_log s' = tx_log s @ [TX_done k])
            \<or> (aborted s s' \<and> (\<exists>k<n. txf \<le> k \<and> (\<forall>j\<ge>k. out' ! j = out ! j)))"
      proof
        assume "\<exists>k\<ge>n. tx_log s' = tx_log s2 @ [TX_done k]"
        with logs show ?thesis by simp
      next
        assume a: "aborted s2 s' \<and> (\<exists>k<n. txf1 \<le> k \<and> (\<forall>j\<ge>k. out' ! j = out1 ! j))"
        then obtain k where k: "k < n" "txf1 \<le> k" "\<forall>j\<ge>k. out' ! j = out1 ! j" by blast
        with p have "txf \<le> k \<and> (\<forall>j\<ge>k. out' ! j = out ! j)" by auto
        moreover from a logs have "aborted s s'" by (simp add: aborted_def)
        ultimately show ?thesis using k(1) by blast
      qed
      from ih inv2 c f out fin show ?thesis by auto
    qed
  qed
qed

subsection \<open>The two loops that resample the buffer\<close>

lemma resample_insert_props:
  assumes "resample_insert avg s rp k = Some s'"
  shows "s' = s\<lparr>ltc_enc_buf := ltc_enc_buf s', ltc_buf_len := ltc_buf_len s'\<rparr>
         \<and> ltc_buf_len s \<le> ltc_buf_len s'"
proof (rule resample_insert.raw_induct
         [where P = "\<lambda>avg s rp k s'. s' = s\<lparr>ltc_enc_buf := ltc_enc_buf s', ltc_buf_len := ltc_buf_len s'\<rparr>
                                    \<and> ltc_buf_len s \<le> ltc_buf_len s'", OF _ assms])
  fix f :: "real \<Rightarrow> 'a session \<Rightarrow> int \<Rightarrow> int \<Rightarrow> 'a session option"
    and avg s rp k s'
  assume IH: "\<And>a b c d y. f a b c d = Some y \<Longrightarrow>
                y = b\<lparr>ltc_enc_buf := ltc_enc_buf y, ltc_buf_len := ltc_buf_len y\<rparr>
                \<and> ltc_buf_len b \<le> ltc_buf_len y"
    and body: "(if rp < ltc_buf_len s - 1 then
        (let ro = rp - ltc_buf_off s
         in if real_of_int ro < real_of_int k * avg
            then f avg s (rp + 1) k
            else if ltc_enc_buf s rp \<noteq> ltc_enc_buf s (rp + 1)
                    \<and> real_of_int ro < real_of_int (k + 1) * avg
            then f avg s (rp + 1) k
            else f avg
                   (s\<lparr>ltc_enc_buf := memmove (ltc_enc_buf s) (rp + 1) rp (ltc_buf_len s - rp),
                      ltc_buf_len := ltc_buf_len s + 1\<rparr>)
                   (rp + 1) (k + 1))
      else Some s) = Some s'"
  show "s' = s\<lparr>ltc_enc_buf := ltc_enc_buf s', ltc_buf_len := ltc_buf_len s'\<rparr>
         \<and> ltc_buf_len s \<le> ltc_buf_len s'"
  proof (cases "rp < ltc_buf_len s - 1")
    case False
    with body show ?thesis by simp
  next
    case True
    let ?s1 = "s\<lparr>ltc_enc_buf := memmove (ltc_enc_buf s) (rp + 1) rp (ltc_buf_len s - rp),
                   ltc_buf_len := ltc_buf_len s + 1\<rparr>"
    from True body consider "f avg s (rp + 1) k = Some s'" | "f avg ?s1 (rp + 1) (k + 1) = Some s'"
      by (auto simp: Let_def split: if_splits)
    then show ?thesis
    proof cases
      case 1
      from IH [OF this] show ?thesis .
    next
      case 2
      from IH [OF this] have a: "s' = ?s1\<lparr>ltc_enc_buf := ltc_enc_buf s', ltc_buf_len := ltc_buf_len s'\<rparr>"
        and b: "ltc_buf_len ?s1 \<le> ltc_buf_len s'" by blast+
      from a have "s' = s\<lparr>ltc_enc_buf := ltc_enc_buf s', ltc_buf_len := ltc_buf_len s'\<rparr>"
        by simp
      with b show ?thesis by simp
    qed
  qed
qed

lemma resample_insert_terminates:
  assumes "1 < avg"
  shows "\<exists>s'. resample_insert avg s rp k = Some s'"
proof (induction "insert_measure avg s rp k" arbitrary: s rp k rule: less_induct)
  case less
  show ?case
  proof (cases "rp < ltc_buf_len s - 1")
    case False
    then show ?thesis by (subst resample_insert.simps) simp
  next
    case True
    let ?s1 = "s\<lparr>ltc_enc_buf := memmove (ltc_enc_buf s) (rp + 1) rp (ltc_buf_len s - rp),
                   ltc_buf_len := ltc_buf_len s + 1\<rparr>"
    let ?d = "real_of_int (rp - ltc_buf_off s) - real_of_int k * avg"
    let ?g = "real_of_int (ltc_buf_len s - 1 - rp)"
    have skip: "insert_measure avg s (rp + 1) k < insert_measure avg s rp k"
    proof -
      have eq: "real_of_int (rp + 1 - ltc_buf_off s) - real_of_int k * avg
              + real_of_int (ltc_buf_len s - 1 - (rp + 1)) = ?d + ?g"
        by simp
      have "insert_measure avg s (rp + 1) k
              = nat \<lceil>(?d + ?g) / (avg - 1)\<rceil> + nat (ltc_buf_len s - 1 - (rp + 1))"
        unfolding insert_measure_def eq ..
      also have "\<dots> < nat \<lceil>(?d + ?g) / (avg - 1)\<rceil> + nat (ltc_buf_len s - 1 - rp)"
        using True by (intro add_strict_left_mono) simp
      also have "\<dots> = insert_measure avg s rp k"
        unfolding insert_measure_def ..
      finally show ?thesis .
    qed
    have ins: "insert_measure avg ?s1 (rp + 1) (k + 1) < insert_measure avg s rp k"
      if d: "0 \<le> ?d"
    proof -
      let ?x = "(?d + ?g) / (avg - 1)"
      have e: "(real_of_int (rp + 1 - ltc_buf_off ?s1) - real_of_int (k + 1) * avg
              + real_of_int (ltc_buf_len ?s1 - 1 - (rp + 1))) / (avg - 1) = ?x - 1"
        using assms by (simp add: field_simps)
      have "0 < ?x" using d True assms by (simp add: zero_less_divide_iff)
      then have "0 < \<lceil>?x\<rceil>" by simp
      then have "nat \<lceil>?x - 1\<rceil> < nat \<lceil>?x\<rceil>" by simp
      then have lt: "nat \<lceil>?x - 1\<rceil> + nat (ltc_buf_len s - 1 - rp)
                       < nat \<lceil>?x\<rceil> + nat (ltc_buf_len s - 1 - rp)"
        by (intro add_strict_right_mono)
      have g: "nat (ltc_buf_len ?s1 - 1 - (rp + 1)) = nat (ltc_buf_len s - 1 - rp)" by simp
      have "insert_measure avg ?s1 (rp + 1) (k + 1)
              = nat \<lceil>?x - 1\<rceil> + nat (ltc_buf_len s - 1 - rp)"
        unfolding insert_measure_def e g ..
      also note lt
      also have "nat \<lceil>?x\<rceil> + nat (ltc_buf_len s - 1 - rp) = insert_measure avg s rp k"
        unfolding insert_measure_def ..
      finally show ?thesis .
    qed
    show ?thesis
    proof (cases "real_of_int (rp - ltc_buf_off s) < real_of_int k * avg")
      case c1: True
      from less [OF skip] True c1 show ?thesis
        by (subst resample_insert.simps) (simp add: Let_def)
    next
      case c1: False
      show ?thesis
      proof (cases "ltc_enc_buf s rp \<noteq> ltc_enc_buf s (rp + 1)
                    \<and> real_of_int (rp - ltc_buf_off s) < real_of_int (k + 1) * avg")
        case c2: True
        from less [OF skip] True c1 c2 show ?thesis
          by (subst resample_insert.simps) (simp add: Let_def)
      next
        case c2: False
        from c1 have "0 \<le> ?d" by simp
        from less [OF ins [OF this]] True c1 c2 show ?thesis
          by (subst resample_insert.simps) (auto simp: Let_def)
      qed
    qed
  qed
qed

lemma resample_remove_props:
  "resample_remove avg s rp k =
     s\<lparr>ltc_enc_buf := ltc_enc_buf (resample_remove avg s rp k),
       ltc_buf_len := ltc_buf_len (resample_remove avg s rp k)\<rparr>
   \<and> (ltc_buf_off s \<le> rp \<and> ltc_buf_off s \<le> ltc_buf_len s
        \<longrightarrow> ltc_buf_off s \<le> ltc_buf_len (resample_remove avg s rp k))"
proof (induction avg s rp k rule: resample_remove.induct)
  case (1 avg s rp k)
  show ?case
  proof (cases "rp < ltc_buf_len s - 1")
    case False
    then show ?thesis by (subst (1 2 3 4) resample_remove.simps) simp
  next
    case True
    let ?s1 = "s\<lparr>ltc_enc_buf := memmove (ltc_enc_buf s) rp (rp + 1) (ltc_buf_len s - rp - 1),
                   ltc_buf_len := ltc_buf_len s - 1\<rparr>"
    consider (skip) "resample_remove avg s rp k = resample_remove avg s (rp + 1) k"
        "real_of_int (rp - ltc_buf_off s) < real_of_int k * avg
         \<or> (ltc_enc_buf s rp \<noteq> ltc_enc_buf s (rp + 1)
            \<and> real_of_int (rp - ltc_buf_off s) < real_of_int (k + 1) * avg)"
      | (del) "resample_remove avg s rp k = resample_remove avg ?s1 (rp + 1) (k + 1)"
        "\<not> real_of_int (rp - ltc_buf_off s) < real_of_int k * avg"
        "\<not> (ltc_enc_buf s rp \<noteq> ltc_enc_buf s (rp + 1)
            \<and> real_of_int (rp - ltc_buf_off s) < real_of_int (k + 1) * avg)"
    proof -
      have "resample_remove avg s rp k =
              (if real_of_int (rp - ltc_buf_off s) < real_of_int k * avg
               then resample_remove avg s (rp + 1) k
               else if ltc_enc_buf s rp \<noteq> ltc_enc_buf s (rp + 1)
                       \<and> real_of_int (rp - ltc_buf_off s) < real_of_int (k + 1) * avg
               then resample_remove avg s (rp + 1) k
               else resample_remove avg ?s1 (rp + 1) (k + 1))"
        using True by (subst resample_remove.simps) (simp add: Let_def)
      then show ?thesis using that by (auto split: if_splits)
    qed
    then show ?thesis
    proof cases
      case skip
      from skip(2) show ?thesis
      proof
        assume c: "real_of_int (rp - ltc_buf_off s) < real_of_int k * avg"
        from 1(1) [OF True refl c] skip(1) show ?thesis by auto
      next
        assume c: "ltc_enc_buf s rp \<noteq> ltc_enc_buf s (rp + 1)
            \<and> real_of_int (rp - ltc_buf_off s) < real_of_int (k + 1) * avg"
        show ?thesis
        proof (cases "real_of_int (rp - ltc_buf_off s) < real_of_int k * avg")
          case True
          from 1(1) [OF \<open>rp < ltc_buf_len s - 1\<close> refl True] skip(1) show ?thesis by auto
        next
          case False
          from 1(2) [OF \<open>rp < ltc_buf_len s - 1\<close> refl False c] skip(1) show ?thesis by auto
        qed
      qed
    next
      case del
      from 1(3) [OF True refl del(2) del(3)]
      have a: "resample_remove avg ?s1 (rp + 1) (k + 1) =
                 ?s1\<lparr>ltc_enc_buf := ltc_enc_buf (resample_remove avg ?s1 (rp + 1) (k + 1)),
                      ltc_buf_len := ltc_buf_len (resample_remove avg ?s1 (rp + 1) (k + 1))\<rparr>"
        and b: "ltc_buf_off ?s1 \<le> rp + 1 \<and> ltc_buf_off ?s1 \<le> ltc_buf_len ?s1
                 \<longrightarrow> ltc_buf_off ?s1 \<le> ltc_buf_len (resample_remove avg ?s1 (rp + 1) (k + 1))"
        by blast+
      from a have a': "resample_remove avg ?s1 (rp + 1) (k + 1) =
                 s\<lparr>ltc_enc_buf := ltc_enc_buf (resample_remove avg ?s1 (rp + 1) (k + 1)),
                   ltc_buf_len := ltc_buf_len (resample_remove avg ?s1 (rp + 1) (k + 1))\<rparr>"
        by simp
      from b True have b': "ltc_buf_off s \<le> rp \<and> ltc_buf_off s \<le> ltc_buf_len s
           \<longrightarrow> ltc_buf_off s \<le> ltc_buf_len (resample_remove avg ?s1 (rp + 1) (k + 1))"
        by simp
      show ?thesis unfolding del(1) using a' b' by simp
    qed
  qed
qed

lemma rint_int: "\<exists>m. rint x = real_of_int m"
  by (simp add: rint_def Let_def)

lemma rint_0 [simp]: "rint 0 = 0"
  by (simp add: rint_def)

lemma avg_distance_above_1:
  assumes "\<not> (\<bar>rint (new - old)\<bar> > new \<or> \<bar>rint (new - old)\<bar> > old)"
    and "rint (new - old) \<noteq> 0" and "new > old"
  shows "1 < new / real_of_int \<lceil>new - old\<rceil>"
proof -
  obtain m where m: "rint (new - old) = real_of_int m" using rint_int by blast
  with assms(2) have "m \<noteq> 0" by auto
  then have "1 \<le> \<bar>real_of_int m\<bar>" by linarith
  with assms(1) m have old: "1 \<le> old" by linarith
  have "real_of_int \<lceil>new - old\<rceil> < new - old + 1" by linarith
  with old have up: "real_of_int \<lceil>new - old\<rceil> < new" by linarith
  from assms(3) have "0 < \<lceil>new - old\<rceil>" by simp
  then have "0 < real_of_int \<lceil>new - old\<rceil>" by simp
  with up show ?thesis by (simp add: less_divide_eq_1_pos)
qed

text \<open>
  The resampling always comes back: where the loop of insertions is entered the average
  distance is above 1. It changes the buffer, its length and offset and nothing else, or
  resets the generator; it keeps the offset within the length, and does nothing to an
  empty buffer.
\<close>

lemma resample_buffer_result:
  "\<exists>s' poff. resample_buffer L s v ch = Some (s', poff)
     \<and> (((\<exists>buf len off. s' = s\<lparr>ltc_enc_buf := buf, ltc_buf_len := len, ltc_buf_off := off\<rparr>)
          \<and> poff = buffered_duration s)
         \<or> (s' = ltc_tx_reset L (trace TX_resample_destroys s) \<and> poff = 0))
     \<and> (ltc_buf_off s \<le> ltc_buf_len s \<longrightarrow> ltc_buf_off s' \<le> ltc_buf_len s')
     \<and> (ltc_buf_off s = ltc_buf_len s \<longrightarrow> s' = s \<and> poff = 0)"
proof -
  let ?old = "real_of_int (ltc_buf_len s - ltc_buf_off s)"
  let ?new = "real_of_int (ltc_buf_len s - ltc_buf_off s) * \<bar>ltc_speed s / v\<bar>"
  let ?b = "rint (?new - ?old)"
  have self: "\<exists>buf len off. s = s\<lparr>ltc_enc_buf := buf, ltc_buf_len := len, ltc_buf_off := off\<rparr>"
    by (rule exI [of _ "ltc_enc_buf s"], rule exI [of _ "ltc_buf_len s"],
        rule exI [of _ "ltc_buf_off s"]) simp
  show ?thesis
  proof (cases "ch \<and> v \<noteq> 0")
    case False
    then have "resample_buffer L s v ch = Some (s, buffered_duration s)"
      by (auto simp: resample_buffer_def Let_def)
    with self show ?thesis by (simp add: buffered_duration_def)
  next
    case go: True
    show ?thesis
    proof (cases "\<bar>?b\<bar> > ?new \<or> \<bar>?b\<bar> > ?old")
      case True
      with go have "resample_buffer L s v ch = Some (ltc_tx_reset L (trace TX_resample_destroys s), 0)"
        by (simp add: resample_buffer_def Let_def)
      moreover from True have "ltc_buf_off s \<noteq> ltc_buf_len s" by auto
      ultimately show ?thesis by simp
    next
      case keep: False
      show ?thesis
      proof (cases "?b \<noteq> 0 \<and> ?new > ?old")
        case True
        then have avg: "1 < ?new / real_of_int \<lceil>?new - ?old\<rceil>"
          using avg_distance_above_1 [OF keep] by blast
        from resample_insert_terminates [OF avg] obtain s' where
          s': "resample_insert (?new / real_of_int \<lceil>?new - ?old\<rceil>) s (ltc_buf_off s) 0 = Some s'"
          by blast
        from go keep True s' have r: "resample_buffer L s v ch = Some (s', buffered_duration s)"
          by (simp add: resample_buffer_def Let_def)
        from resample_insert_props [OF s']
        have le: "ltc_buf_len s \<le> ltc_buf_len s'" by blast
        from resample_insert_props [OF s'] obtain buf len where
          p: "s' = s\<lparr>ltc_enc_buf := buf, ltc_buf_len := len\<rparr>" by blast
        then have "s' = s\<lparr>ltc_enc_buf := buf, ltc_buf_len := len, ltc_buf_off := ltc_buf_off s\<rparr>"
          by simp
        then have ex: "\<exists>buf len off. s' = s\<lparr>ltc_enc_buf := buf, ltc_buf_len := len, ltc_buf_off := off\<rparr>"
          by blast
        from p have off: "ltc_buf_off s' = ltc_buf_off s" by simp
        from True have "ltc_buf_off s \<noteq> ltc_buf_len s" by auto
        with r le off ex show ?thesis by simp
      next
        case noins: False
        show ?thesis
        proof (cases "?b \<noteq> 0 \<and> ?new < ?old")
          case False
          with go keep noins have "resample_buffer L s v ch = Some (s, buffered_duration s)"
            by (auto simp: resample_buffer_def Let_def)
          with self show ?thesis by (simp add: buffered_duration_def)
        next
          case True
          then have ne: "ltc_buf_off s \<noteq> ltc_buf_len s" by auto
          show ?thesis
          proof (cases "?old \<le> real_of_int \<lceil>?old - ?new\<rceil>")
            case c: True
            with go keep noins True have
              "resample_buffer L s v ch = Some (s\<lparr>ltc_buf_len := 0, ltc_buf_off := 0\<rparr>, buffered_duration s)"
              by (auto simp: resample_buffer_def Let_def)
            moreover have "\<exists>buf len off. s\<lparr>ltc_buf_len := 0, ltc_buf_off := 0\<rparr>
                 = s\<lparr>ltc_enc_buf := buf, ltc_buf_len := len, ltc_buf_off := off\<rparr>"
              by (rule exI [of _ "ltc_enc_buf s"], rule exI [of _ 0], rule exI [of _ 0]) simp
            ultimately show ?thesis using ne by simp
          next
            case c: False
            let ?r = "resample_remove (?new / real_of_int \<lceil>?old - ?new\<rceil>) s (ltc_buf_off s) 0"
            from go keep noins True c have r: "resample_buffer L s v ch = Some (?r, buffered_duration s)"
              by (auto simp: resample_buffer_def Let_def)
            from resample_remove_props [of "?new / real_of_int \<lceil>?old - ?new\<rceil>" s "ltc_buf_off s" 0]
            obtain buf len where p: "?r = s\<lparr>ltc_enc_buf := buf, ltc_buf_len := len\<rparr>"
              and le: "ltc_buf_off s \<le> ltc_buf_len s \<longrightarrow> ltc_buf_off s \<le> ltc_buf_len ?r"
              by blast
            from p have "?r = s\<lparr>ltc_enc_buf := buf, ltc_buf_len := len, ltc_buf_off := ltc_buf_off s\<rparr>"
              by simp
            then have ex: "\<exists>buf len off. ?r = s\<lparr>ltc_enc_buf := buf, ltc_buf_len := len, ltc_buf_off := off\<rparr>"
              by blast
            from p have off: "ltc_buf_off ?r = ltc_buf_off s" by simp
            from r le off ex ne show ?thesis by simp
          qed
        qed
      qed
    qed
  qed
qed

subsection \<open>Stages 1 and 2 keep the invariant and write early lines only\<close>

lemma check_fps_Return:
  assumes "check_fps L H s = Return s'"
  shows "s' = ltc_tx_cleanup (trace Error_invalid_framerate s)
         \<and> timecode_format H \<noteq> ltc_enc_tcformat s
         \<and> ltc_encoder_reinit L (ltc_encoder s) (nominal_sample_rate H)
              (timecode_to_frames_per_second H (timecode_format H))
              (TV_STANDARD H (timecode_format H)) = None"
  using assms by (auto simp: check_fps_def Let_def split: if_splits option.splits)

lemma check_fps_Continue:
  assumes "check_fps L H s = Continue s'"
  shows "(buffer_invariant s \<longrightarrow> buffer_invariant s')
         \<and> (list_all early_event (tx_log s) \<longrightarrow> list_all early_event (tx_log s'))
         \<and> has_ltc_encoder s' = has_ltc_encoder s \<and> has_ltc_enc_buf s' = has_ltc_enc_buf s
         \<and> ltc_out_latency_max s' = ltc_out_latency_max s
         \<and> (timecode_format H = ltc_enc_tcformat s \<longrightarrow> s' = s)"
  using assms
  by (auto simp: check_fps_def Let_def buffer_invariant_def ltc_tx_parse_offset_def
      split: if_splits option.splits)

lemma speed_bounds_props:
  assumes "speed_bounds L s v ch = r" "r = Return s' \<or> r = Continue (s', v', ch')"
  shows "(buffer_invariant s \<longrightarrow> buffer_invariant s')
         \<and> (list_all early_event (tx_log s) \<longrightarrow> list_all early_event (tx_log s'))
         \<and> has_ltc_encoder s' = has_ltc_encoder s \<and> has_ltc_enc_buf s' = has_ltc_enc_buf s
         \<and> ltc_speed s' = ltc_speed s"
  using assms
  by (auto simp: speed_bounds_def buffer_invariant_def split: if_splits)

lemma speed_and_direction_props:
  assumes "speed_and_direction L H s a b v0 = r" "r = Return s' \<or> r = Continue (s', v', ch')"
  shows "(buffer_invariant s \<longrightarrow> buffer_invariant s')
         \<and> (list_all early_event (tx_log s) \<longrightarrow> list_all early_event (tx_log s'))
         \<and> has_ltc_encoder s' = has_ltc_encoder s \<and> has_ltc_enc_buf s' = has_ltc_enc_buf s"
proof -
  let ?s1 = "if SIGNUM v0 \<noteq> SIGNUM (ltc_speed s)
                then ltc_tx_reset L (trace TX_direction_changed s) else s"
  let ?s2 = "if ltc_speed ?s1 \<noteq> v0
                then ?s1\<lparr>ltc_encoder := ltc_encoder_set_filter L (ltc_encoder ?s1) (LTC_RISE_TIME H v0)\<rparr>
                else ?s1"
  have s2: "(buffer_invariant s \<longrightarrow> buffer_invariant ?s2)
         \<and> (list_all early_event (tx_log s) \<longrightarrow> list_all early_event (tx_log ?s2))
         \<and> has_ltc_encoder ?s2 = has_ltc_encoder s \<and> has_ltc_enc_buf ?s2 = has_ltc_enc_buf s"
    by (simp add: buffer_invariant_def)
  show ?thesis
  proof (cases "b = a \<or> \<bar>v0\<bar> < 1 / 10")
    case False
    with assms(1) have "speed_bounds L ?s2 v0 (ltc_speed ?s1 \<noteq> v0) = r"
      by (simp add: speed_and_direction_def Let_def)
    from speed_bounds_props [OF this assms(2)] s2 show ?thesis by simp
  next
    case idle: True
    let ?s3 = "trace TX_not_rolling ?s2"
    have s3: "(buffer_invariant s \<longrightarrow> buffer_invariant ?s3)
         \<and> (list_all early_event (tx_log s) \<longrightarrow> list_all early_event (tx_log ?s3))
         \<and> has_ltc_encoder ?s3 = has_ltc_encoder s \<and> has_ltc_enc_buf ?s3 = has_ltc_enc_buf s"
      by (simp add: buffer_invariant_def)
    show ?thesis
    proof (cases "ltc_send_continuously H")
      case False
      with idle assms have "s' = ?s3\<lparr>ltc_speed := 0\<rparr>"
        by (auto simp: speed_and_direction_def Let_def)
      with s3 show ?thesis by (simp add: buffer_invariant_def)
    next
      case True
      let ?s4 = "if a \<noteq> ltc_prev_cycle ?s3 then ltc_tx_reset L (trace TX_no_roll_seek ?s3) else ?s3"
      have s4: "(buffer_invariant s \<longrightarrow> buffer_invariant ?s4)
         \<and> (list_all early_event (tx_log s) \<longrightarrow> list_all early_event (tx_log ?s4))
         \<and> has_ltc_encoder ?s4 = has_ltc_encoder s \<and> has_ltc_enc_buf ?s4 = has_ltc_enc_buf s"
        by (simp add: buffer_invariant_def)
      from idle True assms(1) have "speed_bounds L ?s4 0 (ltc_speed ?s1 \<noteq> v0) = r"
        by (simp add: speed_and_direction_def Let_def)
      from speed_bounds_props [OF this assms(2)] s4 show ?thesis by simp
    qed
  qed
qed

subsection \<open>The re-alignment\<close>

lemma floor_byte_range:
  assumes "0 \<le> soff" "real_of_int soff < f"
  shows "0 \<le> \<lfloor>10 * real_of_int soff / f\<rfloor> \<and> \<lfloor>10 * real_of_int soff / f\<rfloor> \<le> 9"
proof -
  from assms have f: "0 < f" by (smt (verit) of_int_nonneg)
  with assms have "0 \<le> 10 * real_of_int soff / f" by simp
  moreover from assms f have "10 * real_of_int soff / f < 10" by (simp add: field_simps)
  ultimately show ?thesis by (simp add: floor_less_iff le_floor_iff)
qed

lemma ceiling_byte_range:
  assumes "0 \<le> soff" "real_of_int soff < f"
  shows "0 \<le> \<lceil>10 * real_of_int soff / f\<rceil> \<and> \<lceil>10 * real_of_int soff / f\<rceil> \<le> 10"
proof -
  from assms have f: "0 < f" by (smt (verit) of_int_nonneg)
  with assms have "0 \<le> 10 * real_of_int soff / f" by simp
  moreover from assms f have "10 * real_of_int soff / f \<le> 10" by (simp add: field_simps)
  ultimately show ?thesis by (simp add: ceiling_le_iff le_ceiling_iff)
qed

lemma byte_alignment_result:
  "byte_alignment L H s soff =
     (let fptcf = samples_per_timecode_frame H;
          b = (if ltc_speed s < 0 then \<lfloor>10 * real_of_int soff / fptcf\<rfloor>
               else \<lceil>10 * real_of_int soff / fptcf\<rceil>)
      in (s\<lparr>ltc_enc_byte := (if 0 \<le> ltc_speed s \<and> b = 10 then 0 else b),
            ltc_enc_cnt := real_of_int b * fptcf / 10,
            ltc_encoder := (if 0 \<le> ltc_speed s \<and> b = 10
                            then ltc_encoder_inc_timecode L (ltc_encoder s) else ltc_encoder s)\<rparr>,
          if ltc_speed s < 0 then soff - \<lceil>real_of_int b * fptcf / 10\<rceil>
          else \<lceil>real_of_int b * fptcf / 10\<rceil> - soff))"
  by (simp add: byte_alignment_def Let_def)

lemma realign_result:
  "if soff < 0 \<or> samples_per_timecode_frame H \<le> real_of_int soff then
     \<exists>s'. realign L H s cs tc tcs soff n out = Return s'
          \<and> tx_log s' = tx_log s @ [TX_reset, TX_realign cs tcs soff, TX_reset]
          \<and> ltc_encoder s' = ltc_encoder_reset L (seeded L H s tc)
          \<and> ltc_enc_pos s' = - 9999 \<and> ltc_buf_len s' = 0 \<and> ltc_buf_off s' = 0
          \<and> ltc_enc_byte s' = 0
          \<and> has_ltc_encoder s' = has_ltc_encoder s \<and> has_ltc_enc_buf s' = has_ltc_enc_buf s
   else if 0 \<le> start_offset H s soff \<and> start_offset H s soff \<le> int n then
     \<exists>s'. realign L H s cs tc tcs soff n out =
            Continue (s', nat (c_trunc (rint (real_of_int (start_offset H s soff) / \<bar>ltc_speed s\<bar>))),
                      replicate (nat (start_offset H s soff)) 0 @ drop (nat (start_offset H s soff)) out)
          \<and> realigned L H s cs tc tcs soff s'
          \<and> ltc_enc_pos s' = c_rem tcs (wrap24h H)
   else
     \<exists>s'. realign L H s cs tc tcs soff n out = Return s'
          \<and> realigned L H s cs tc tcs soff s' \<and> ltc_enc_pos s' = - 9999"
proof -
  let ?s2 = "trace (TX_realign cs tcs soff)
               ((ltc_tx_reset L s)\<lparr>ltc_encoder := seed_encoder L H tc (ltc_encoder (ltc_tx_reset L s))\<rparr>)"
  have enc: "ltc_encoder ?s2 = seeded L H s tc"
    by (simp add: seeded_def seed_encoder_def ltc_tx_reset_def trace_def)
  have sp: "ltc_speed ?s2 = ltc_speed s" by simp
  show ?thesis
  proof (cases "soff < 0 \<or> samples_per_timecode_frame H \<le> real_of_int soff")
    case True
    then have "realign L H s cs tc tcs soff n out = Return (ltc_tx_reset L ?s2)"
      by (auto simp: realign_def Let_def)
    moreover have "ltc_encoder (ltc_tx_reset L ?s2) = ltc_encoder_reset L (seeded L H s tc)"
      using enc by (simp add: ltc_tx_reset_def trace_def)
    ultimately show ?thesis using True by simp
  next
    case False
    then have rng: "0 \<le> soff" "real_of_int soff < samples_per_timecode_frame H" by auto
    have b10: "start_byte H s soff \<noteq> 10" if "ltc_speed s < 0"
    proof -
      from that have "start_byte H s soff = \<lfloor>10 * real_of_int soff / samples_per_timecode_frame H\<rfloor>"
        by (simp add: start_byte_def)
      with floor_byte_range [OF rng] show ?thesis by linarith
    qed
    obtain s3 cyc where ba: "byte_alignment L H ?s2 soff = (s3, cyc)"
      by (cases "byte_alignment L H ?s2 soff") auto
    from ba have cyc: "cyc = start_offset H s soff"
      unfolding byte_alignment_result by (auto simp: Let_def start_offset_def start_byte_def)
    from ba have s3: "s3 = ?s2\<lparr>ltc_enc_byte := (if 0 \<le> ltc_speed s \<and> start_byte H s soff = 10 then 0
                                                   else start_byte H s soff),
            ltc_enc_cnt := real_of_int (start_byte H s soff) * samples_per_timecode_frame H / 10,
            ltc_encoder := (if 0 \<le> ltc_speed s \<and> start_byte H s soff = 10
                            then ltc_encoder_inc_timecode L (seeded L H s tc) else seeded L H s tc)\<rparr>"
      unfolding byte_alignment_result enc sp by (auto simp: Let_def start_byte_def)
    let ?s4 = "trace (TX_restart_encoder soff (ltc_enc_byte s3) cyc) s3"
    define s5 where "s5 = (if (ltc_speed ?s4 < 0 \<and> ltc_enc_byte ?s4 \<noteq> 9) \<or> (ltc_speed ?s4 \<ge> 0 \<and> ltc_enc_byte ?s4 \<noteq> 0)
               then ?s4\<lparr>restarting := True\<rparr> else ?s4)"
    have r5: "realigned L H s cs tc tcs soff s5"
      using b10 by (auto simp: realigned_def s3 cyc s5_def)
    have r5': "realigned L H s cs tc tcs soff (s5\<lparr>ltc_enc_pos := c_rem tcs (wrap24h H)\<rparr>)"
      using r5 by (simp add: realigned_def)
    have p5: "ltc_enc_pos s5 = - 9999" by (simp add: s3 s5_def)
    have p5': "ltc_enc_pos (s5\<lparr>ltc_enc_pos := c_rem tcs (wrap24h H)\<rparr>) = c_rem tcs (wrap24h H)" by simp
    have v5: "ltc_speed s5 = ltc_speed s" by (simp add: s3 s5_def)
    have run: "realign L H s cs tc tcs soff n out =
            (if cyc \<ge> 0 \<and> cyc \<le> int n
             then Continue (s5\<lparr>ltc_enc_pos := c_rem tcs (wrap24h H)\<rparr>,
                            nat (c_trunc (rint (real_of_int cyc / \<bar>ltc_speed s5\<bar>))),
                            replicate (nat cyc) 0 @ drop (nat cyc) out)
             else Return s5)"
      using False ba unfolding s5_def by (simp add: realign_def Let_def)
    show ?thesis
    proof (cases "0 \<le> start_offset H s soff \<and> start_offset H s soff \<le> int n")
      case True
      with run have "realign L H s cs tc tcs soff n out =
          Continue (s5\<lparr>ltc_enc_pos := c_rem tcs (wrap24h H)\<rparr>,
                    nat (c_trunc (rint (real_of_int (start_offset H s soff) / \<bar>ltc_speed s\<bar>))),
                    replicate (nat (start_offset H s soff)) 0 @ drop (nat (start_offset H s soff)) out)"
        unfolding v5 cyc by simp
      with r5' p5' True False show ?thesis by (simp only: if_True if_False simp_thms) blast
    next
      case c: False
      with run have "realign L H s cs tc tcs soff n out = Return s5"
        unfolding cyc by auto
      with r5 p5 c False show ?thesis by (simp only: if_True if_False simp_thms) blast
    qed
  qed
qed

subsection \<open>From the alignment to the end of the block\<close>

lemma realigned_invariant:
  assumes "0 \<le> soff" "real_of_int soff < samples_per_timecode_frame H"
    and "realigned L H s cs tc tcs soff s'"
  shows "buffer_invariant s'"
proof -
  have "0 \<le> start_byte H s soff \<and> start_byte H s soff \<le> 10"
    using floor_byte_range [OF assms(1,2)] ceiling_byte_range [OF assms(1,2)]
    by (auto simp: start_byte_def)
  with assms(3) show ?thesis by (auto simp: realigned_def buffer_invariant_def)
qed

lemma silence_kept: "c \<le> int n \<Longrightarrow> replicate (nat c) 0 @ drop (nat c) (replicate n (0::real)) = replicate n 0"
  by (simp add: replicate_add [symmetric])

lemma loop_end:
  assumes "encode_and_output L H n s (replicate n 0) txf = (s', out')"
  shows "length out' = n
         \<and> has_ltc_encoder s' = has_ltc_encoder s \<and> has_ltc_enc_buf s' = has_ltc_enc_buf s
         \<and> (buffer_invariant s \<longrightarrow> buffer_invariant s')
         \<and> (\<exists>fin. tx_log s' = tx_log s @ fin \<and> fin \<noteq> [] \<and> fin \<noteq> [TX_reset] \<and> block_end n s' out' fin)"
proof -
  note o = encode_and_output_outcome [OF assms]
  from o have "(\<exists>k\<ge>n. tx_log s' = tx_log s @ [TX_done k])
            \<or> (aborted s s' \<and> (\<exists>k<n. txf \<le> k \<and> (\<forall>j\<ge>k. out' ! j = replicate n 0 ! j)))"
    by blast
  then have "\<exists>fin. tx_log s' = tx_log s @ fin \<and> fin \<noteq> [] \<and> fin \<noteq> [TX_reset] \<and> block_end n s' out' fin"
  proof
    assume "\<exists>k\<ge>n. tx_log s' = tx_log s @ [TX_done k]"
    then obtain k where "k \<ge> n" "tx_log s' = tx_log s @ [TX_done k]" by blast
    then show ?thesis by (intro exI [of _ "[TX_done k]"]) (simp add: block_end_def)
  next
    assume a: "aborted s s' \<and> (\<exists>k<n. txf \<le> k \<and> (\<forall>j\<ge>k. out' ! j = replicate n 0 ! j))"
    then obtain k where k: "k < n" "\<forall>j\<ge>k. out' ! j = replicate n 0 ! j" by blast
    then have z: "\<exists>k<n. \<forall>j. k \<le> j \<and> j < n \<longrightarrow> out' ! j = 0" by auto
    from a have "tx_log s' = tx_log s @ [TX_empty_buffer, TX_reset]
       \<or> (\<exists>b. tx_log s' = tx_log s @ [TX_encoder_error b, TX_reset])"
      by (simp add: aborted_def)
    then show ?thesis
    proof
      assume "tx_log s' = tx_log s @ [TX_empty_buffer, TX_reset]"
      with a z show ?thesis
        by (intro exI [of _ "[TX_empty_buffer, TX_reset]"]) (simp add: block_end_def aborted_def)
    next
      assume "\<exists>b. tx_log s' = tx_log s @ [TX_encoder_error b, TX_reset]"
      then obtain b where "tx_log s' = tx_log s @ [TX_encoder_error b, TX_reset]" by blast
      with a z show ?thesis
        by (intro exI [of _ "[TX_encoder_error b, TX_reset]"]) (simp add: block_end_def aborted_def)
    qed
  qed
  with o show ?thesis by simp
qed

lemma align_and_output_end:
  assumes "align_and_output L H s cs poff n (replicate n 0) = (s', out')"
  shows "length out' = n
         \<and> has_ltc_encoder s' = has_ltc_encoder s \<and> has_ltc_enc_buf s' = has_ltc_enc_buf s
         \<and> (buffer_invariant s \<longrightarrow> buffer_invariant s')
         \<and> (\<exists>mid fin. tx_log s' = tx_log s @ mid @ fin \<and> block_end n s' out' fin
              \<and> (if alignment_branch H s cs poff = Realign
                  then \<exists>a b. mid = [TX_reset, TX_realign cs a b]
                          \<or> (\<exists>c d e. mid = [TX_reset, TX_realign cs a b, TX_restart_encoder c d e])
                  else mid = []))"
proof -
  define tc where "tc = sample_to_timecode H cs (ltc_timecode_negative_offset s) (ltc_timecode_offset s)"
  define tcs where "tcs = timecode_to_sample H tc (ltc_timecode_negative_offset s) (ltc_timecode_offset s)"
  define soff where "soff = (if ltc_speed s = 0 then 0 else cs - tcs)"
  define off where "off = start_offset H s soff"
  show ?thesis
  proof (cases "alignment_branch H s cs poff")
    case Keep
    with assms have "encode_and_output L H n s (replicate n 0) 0 = (s', out')"
      by (simp add: align_and_output_def Let_def)
    from loop_end [OF this] Keep show ?thesis by auto
  next
    case Reduce_jitter
    let ?s1 = "reduce_jitter H s cs poff"
    from Reduce_jitter assms have "encode_and_output L H n ?s1 (replicate n 0) 0 = (s', out')"
      by (simp add: align_and_output_def Let_def)
    from loop_end [OF this] Reduce_jitter show ?thesis
      by (auto simp: reduce_jitter_def buffer_invariant_def)
  next
    case Realign
    let ?r = "realign L H s cs tc tcs soff n (replicate n 0)"
    have run: "align_and_output L H s cs poff n (replicate n 0) =
          (case ?r of Return s' \<Rightarrow> (s', replicate n 0)
           | Continue (s', txf, out') \<Rightarrow> encode_and_output L H n s' out' txf)"
      unfolding soff_def tcs_def tc_def using Realign by (simp add: align_and_output_def Let_def)
    note rr = realign_result [of soff H L s cs tc tcs n "replicate n 0", folded off_def]
    show ?thesis
    proof (cases "soff < 0 \<or> samples_per_timecode_frame H \<le> real_of_int soff")
      case True
      with rr obtain s1 where s1: "?r = Return s1"
          "tx_log s1 = tx_log s @ [TX_reset, TX_realign cs tcs soff, TX_reset]"
          "ltc_buf_len s1 = 0" "ltc_buf_off s1 = 0" "ltc_enc_byte s1 = 0"
          "has_ltc_encoder s1 = has_ltc_encoder s" "has_ltc_enc_buf s1 = has_ltc_enc_buf s"
        by (simp only: if_P if_not_P simp_thms) blast
      from run s1(1) assms have e: "s' = s1" "out' = replicate n 0" by simp_all
      have "tx_log s' = tx_log s @ [TX_reset, TX_realign cs tcs soff] @ [TX_reset]"
        using e s1(2) by simp
      moreover have "block_end n s' out' [TX_reset]" by (simp add: block_end_def)
      ultimately have "\<exists>mid fin. tx_log s' = tx_log s @ mid @ fin \<and> block_end n s' out' fin
              \<and> (\<exists>a b. mid = [TX_reset, TX_realign cs a b]
                          \<or> (\<exists>c d e. mid = [TX_reset, TX_realign cs a b, TX_restart_encoder c d e]))"
        by blast
      with e s1 Realign show ?thesis by (simp add: buffer_invariant_def)
    next
      case rng: False
      show ?thesis
      proof (cases "0 \<le> off \<and> off \<le> int n")
        case False
        with rng rr obtain s1 where s1: "?r = Return s1" "realigned L H s cs tc tcs soff s1"
          by (simp only: if_P if_not_P simp_thms) blast
        from run s1(1) assms have e: "s' = s1" "out' = replicate n 0" by simp_all
        from rng s1(2) have inv: "buffer_invariant s1"
          by (intro realigned_invariant [of soff H L s cs tc tcs s1]) auto
        from s1(2) have "tx_log s' = tx_log s @ [TX_reset, TX_realign cs tcs soff,
                              TX_restart_encoder soff (ltc_enc_byte s1) (off)] @ []"
          using e by (simp add: realigned_def off_def)
        moreover have "block_end n s' out' []" by (simp add: block_end_def)
        ultimately have "\<exists>mid fin. tx_log s' = tx_log s @ mid @ fin \<and> block_end n s' out' fin
              \<and> (\<exists>a b. mid = [TX_reset, TX_realign cs a b]
                          \<or> (\<exists>c d e. mid = [TX_reset, TX_realign cs a b, TX_restart_encoder c d e]))"
          by blast
        with e s1 inv Realign show ?thesis by (simp add: realigned_def)
      next
        case True
        with rng rr obtain s1 where s1: "?r = Continue (s1,
              nat (c_trunc (rint (real_of_int (off) / \<bar>ltc_speed s\<bar>))),
              replicate (nat (off)) 0 @ drop (nat (off)) (replicate n 0))"
            "realigned L H s cs tc tcs soff s1"
          by (simp only: if_P if_not_P simp_thms) blast
        from rng s1(2) have inv: "buffer_invariant s1"
          by (intro realigned_invariant [of soff H L s cs tc tcs s1]) auto
        from True have sk: "replicate (nat (off)) 0
           @ drop (nat (off)) (replicate n (0::real)) = replicate n 0"
          by (intro silence_kept) simp
        from run s1(1) assms have "encode_and_output L H n s1 (replicate n 0)
              (nat (c_trunc (rint (real_of_int (off) / \<bar>ltc_speed s\<bar>)))) = (s', out')"
          unfolding sk by simp
        from loop_end [OF this] inv obtain fin where f: "length out' = n"
          "has_ltc_encoder s' = has_ltc_encoder s1" "has_ltc_enc_buf s' = has_ltc_enc_buf s1"
          "buffer_invariant s'" "tx_log s' = tx_log s1 @ fin" "block_end n s' out' fin"
          by blast
        from s1(2) f(5) have "tx_log s' = tx_log s @ [TX_reset, TX_realign cs tcs soff,
                              TX_restart_encoder soff (ltc_enc_byte s1) (off)] @ fin"
          by (simp add: realigned_def off_def)
        with f(6) have "\<exists>mid fin. tx_log s' = tx_log s @ mid @ fin \<and> block_end n s' out' fin
              \<and> (\<exists>a b. mid = [TX_reset, TX_realign cs a b]
                          \<or> (\<exists>c d e. mid = [TX_reset, TX_realign cs a b, TX_restart_encoder c d e]))"
          by blast
        with f s1(2) Realign show ?thesis by (simp add: realigned_def)
      qed
    qed
  qed
qed

subsection \<open>The ways through the function\<close>

lemma send_ltc_for_cycle_off:
  assumes "0 < n" "\<not> generator_on H st"
  shows "send_ltc_for_cycle L H st a b n =
           Some (st\<lparr>tx_log := []\<rparr>, if has_ltc_output_port H then replicate n 0 else [])"
  using assms by (auto simp: send_ltc_for_cycle_def generator_on_def Let_def)

lemma send_ltc_for_cycle_on:
  assumes "0 < n" "generator_on H st"
  shows "send_ltc_for_cycle L H st a b n =
     (case check_fps L H (st\<lparr>tx_log := []\<rparr>) of
        Return s' \<Rightarrow> Some (s', replicate n 0)
      | Continue s1 \<Rightarrow>
          if timecode_to_frames_per_second H (timecode_format H) > 30 then Some (s1, replicate n 0)
          else
            (case speed_and_direction L H s1 a b (rescale_speed H (block_speed a b n)) of
               Return s' \<Rightarrow> Some (s', replicate n 0)
             | Continue (s2, v, ch) \<Rightarrow>
                 (case resample_buffer L s2 v ch of
                    None \<Rightarrow> None
                  | Some (s3, poff) \<Rightarrow>
                      Some (align_and_output L H (s3\<lparr>ltc_prev_cycle := a, ltc_speed := v\<rparr>)
                              (cycle_start_sample L H s1 a (block_speed a b n)) poff n
                              (replicate n 0)))))"
  using assms by (auto simp: send_ltc_for_cycle_def generator_on_def Let_def split: flow.splits)

lemma send_ltc_for_cycle_cases [consumes 1, case_names off format_error too_fast idle run]:
  assumes "0 < n"
  obtains
    "\<not> generator_on H st"
    "send_ltc_for_cycle L H st a b n =
       Some (st\<lparr>tx_log := []\<rparr>, if has_ltc_output_port H then replicate n 0 else [])"
  | s' where "generator_on H st" "check_fps L H (st\<lparr>tx_log := []\<rparr>) = Return s'"
      "send_ltc_for_cycle L H st a b n = Some (s', replicate n 0)"
  | s1 where "generator_on H st" "check_fps L H (st\<lparr>tx_log := []\<rparr>) = Continue s1"
      "timecode_to_frames_per_second H (timecode_format H) > 30"
      "send_ltc_for_cycle L H st a b n = Some (s1, replicate n 0)"
  | s1 s' where "generator_on H st" "check_fps L H (st\<lparr>tx_log := []\<rparr>) = Continue s1"
      "\<not> timecode_to_frames_per_second H (timecode_format H) > 30"
      "speed_and_direction L H s1 a b (rescale_speed H (block_speed a b n)) = Return s'"
      "send_ltc_for_cycle L H st a b n = Some (s', replicate n 0)"
  | s1 s2 v ch s3 poff where "generator_on H st" "check_fps L H (st\<lparr>tx_log := []\<rparr>) = Continue s1"
      "\<not> timecode_to_frames_per_second H (timecode_format H) > 30"
      "speed_and_direction L H s1 a b (rescale_speed H (block_speed a b n)) = Continue (s2, v, ch)"
      "resample_buffer L s2 v ch = Some (s3, poff)"
      "send_ltc_for_cycle L H st a b n =
         Some (align_and_output L H (s3\<lparr>ltc_prev_cycle := a, ltc_speed := v\<rparr>)
                 (cycle_start_sample L H s1 a (block_speed a b n)) poff n (replicate n 0))"
proof (cases "generator_on H st")
  case False
  with assms that(1) show ?thesis by (simp add: send_ltc_for_cycle_off)
next
  case on: True
  note eq = send_ltc_for_cycle_on [OF assms on, of L a b]
  show ?thesis
  proof (cases "check_fps L H (st\<lparr>tx_log := []\<rparr>)")
    case (Return s')
    with eq on that(2) show ?thesis by simp
  next
    case (Continue s1)
    show ?thesis
    proof (cases "timecode_to_frames_per_second H (timecode_format H) > 30")
      case True
      with eq on Continue that(3) show ?thesis by simp
    next
      case False
      show ?thesis
      proof (cases "speed_and_direction L H s1 a b (rescale_speed H (block_speed a b n))")
        case r: (Return s')
        with eq on Continue False that(4) show ?thesis by simp
      next
        case c: (Continue x)
        obtain s2 v ch where x: "x = (s2, v, ch)" by (cases x) auto
        from resample_buffer_result [of L s2 v ch] obtain s3 poff where
          "resample_buffer L s2 v ch = Some (s3, poff)" by blast
        with eq on Continue False c x that(5) show ?thesis by simp
      qed
    qed
  qed
qed

lemma send_ltc_for_cycle_returns:
  assumes "0 < n"
  shows "\<exists>s' out. send_ltc_for_cycle L H st a b n = Some (s', out)"
  using assms
proof (cases rule: send_ltc_for_cycle_cases [where L = L and H = H and st = st and a = a and b = b])
  case (run s1 s2 v ch s3 poff)
  then show ?thesis by (metis surj_pair)
qed auto

subsection \<open>The invariant of the buffer and of the byte index\<close>

lemma resample_buffer_props:
  assumes "resample_buffer L s v ch = Some (s', poff)"
  shows "(buffer_invariant s \<longrightarrow> buffer_invariant s')
         \<and> (list_all early_event (tx_log s) \<longrightarrow> list_all early_event (tx_log s'))
         \<and> has_ltc_encoder s' = has_ltc_encoder s \<and> has_ltc_enc_buf s' = has_ltc_enc_buf s
         \<and> ltc_enc_tcformat s' = ltc_enc_tcformat s \<and> ltc_speed s' = ltc_speed s"
proof -
  from resample_buffer_result [of L s v ch] assms
  have r: "((\<exists>buf len off. s' = s\<lparr>ltc_enc_buf := buf, ltc_buf_len := len, ltc_buf_off := off\<rparr>)
          \<and> poff = buffered_duration s)
         \<or> (s' = ltc_tx_reset L (trace TX_resample_destroys s) \<and> poff = 0)"
    and le: "ltc_buf_off s \<le> ltc_buf_len s \<longrightarrow> ltc_buf_off s' \<le> ltc_buf_len s'"
    by auto
  from r show ?thesis
  proof
    assume "(\<exists>buf len off. s' = s\<lparr>ltc_enc_buf := buf, ltc_buf_len := len, ltc_buf_off := off\<rparr>)
          \<and> poff = buffered_duration s"
    then obtain buf len off where
      s': "s' = s\<lparr>ltc_enc_buf := buf, ltc_buf_len := len, ltc_buf_off := off\<rparr>" by blast
    then have "tx_log s' = tx_log s" "ltc_enc_byte s' = ltc_enc_byte s"
      "has_ltc_encoder s' = has_ltc_encoder s" "has_ltc_enc_buf s' = has_ltc_enc_buf s"
      "ltc_enc_tcformat s' = ltc_enc_tcformat s" "ltc_speed s' = ltc_speed s"
      by simp_all
    with le show ?thesis by (simp add: buffer_invariant_def)
  next
    assume "s' = ltc_tx_reset L (trace TX_resample_destroys s) \<and> poff = 0"
    then show ?thesis by (simp add: buffer_invariant_def)
  qed
qed

lemma send_ltc_for_cycle_invariant:
  assumes "send_ltc_for_cycle L H st a b n = Some (s', out)" "buffer_invariant st"
  shows "buffer_invariant s'"
proof -
  from assms(1) have n: "0 < n" by (cases "n = 0") (simp_all add: send_ltc_for_cycle_def)
  have inv0: "buffer_invariant (st\<lparr>tx_log := []\<rparr>)"
    using assms(2) by (simp add: buffer_invariant_def)
  from n show ?thesis
  proof (cases rule: send_ltc_for_cycle_cases [where L = L and H = H and st = st and a = a and b = b])
    case off
    with assms(1) inv0 show ?thesis by simp
  next
    case (format_error r)
    with assms(1) have "s' = r" by simp
    with check_fps_Return [OF format_error(2)] inv0 show ?thesis
      by (simp add: buffer_invariant_def ltc_tx_cleanup_def trace_def)
  next
    case (too_fast s1)
    with assms(1) have "s' = s1" by simp
    with check_fps_Continue [OF too_fast(2)] inv0 show ?thesis by simp
  next
    case (idle s1 r)
    with assms(1) have "s' = r" by simp
    with check_fps_Continue [OF idle(2)] speed_and_direction_props [OF idle(4), of r] inv0
    show ?thesis by simp
  next
    case (run s1 s2 v ch s3 poff)
    from check_fps_Continue [OF run(2)] inv0 have "buffer_invariant s1" by simp
    with speed_and_direction_props [OF run(4), of s2 v ch] have "buffer_invariant s2" by simp
    with resample_buffer_props [OF run(5)] have "buffer_invariant s3" by simp
    then have i: "buffer_invariant (s3\<lparr>ltc_prev_cycle := a, ltc_speed := v\<rparr>)"
      by (simp add: buffer_invariant_def)
    from run(6) assms(1) have "align_and_output L H (s3\<lparr>ltc_prev_cycle := a, ltc_speed := v\<rparr>)
                 (cycle_start_sample L H s1 a (block_speed a b n)) poff n (replicate n 0) = (s', out)"
      by simp
    from align_and_output_end [OF this] i show ?thesis by simp
  qed
qed

lemma realign_invariant:
  assumes "realign L H s cs tc tcs soff n out = r" "r = Return s' \<or> r = Continue (s', txf, out')"
  shows "buffer_invariant s'"
proof -
  note rr = realign_result [of soff H L s cs tc tcs n out]
  show ?thesis
  proof (cases "soff < 0 \<or> samples_per_timecode_frame H \<le> real_of_int soff")
    case True
    with rr assms show ?thesis by (auto simp: buffer_invariant_def)
  next
    case False
    with rr assms have "realigned L H s cs tc tcs soff s'"
      by (auto split: if_splits)
    with False show ?thesis
      by (intro realigned_invariant [of soff H L s cs tc tcs s']) auto
  qed
qed

lemma early_events_only:
  assumes "list_all early_event xs"
  shows "TX_empty_buffer \<notin> set xs" "TX_encoder_error k \<notin> set xs" "TX_done m \<notin> set xs"
    "TX_realign x y z \<notin> set xs"
  using assms by (auto simp: list_all_iff)

lemma before_alignment:
  assumes "check_fps L H (st\<lparr>tx_log := []\<rparr>) = Continue s1"
  shows "list_all early_event (tx_log s1)"
    and "speed_and_direction L H s1 a b v0 = Return r \<Longrightarrow> list_all early_event (tx_log r)"
    and "speed_and_direction L H s1 a b v0 = Continue (s2, v, ch) \<Longrightarrow>
         resample_buffer L s2 v ch = Some (s3, poff) \<Longrightarrow> list_all early_event (tx_log s3)"
proof -
  show 1: "list_all early_event (tx_log s1)"
    using check_fps_Continue [OF assms] by simp
  show "list_all early_event (tx_log r)" if "speed_and_direction L H s1 a b v0 = Return r"
    using speed_and_direction_props [OF that, of r] 1 by simp
  show "list_all early_event (tx_log s3)"
    if "speed_and_direction L H s1 a b v0 = Continue (s2, v, ch)"
      and "resample_buffer L s2 v ch = Some (s3, poff)"
    using speed_and_direction_props [OF that(1), of s2 v ch] resample_buffer_props [OF that(2)] 1
    by simp
qed

subsection \<open>The trace of stage 2\<close>

lemma speed_bounds_log:
  assumes "speed_bounds L s v ch = r" "r = Return s' \<or> r = Continue (s', v', ch')"
  shows "tx_log s' = tx_log s @ bounds_log s v
         \<and> (TX_reset \<in> set (bounds_log s v) \<longrightarrow> ltc_enc_pos s' = - 9999 \<and> ltc_buf_len s' = 0 \<and> ltc_buf_off s' = 0)
         \<and> (TX_reset \<notin> set (bounds_log s v) \<longrightarrow>
               ltc_enc_pos s' = ltc_enc_pos s \<and> ltc_buf_len s' = ltc_buf_len s
               \<and> ltc_buf_off s' = ltc_buf_off s \<and> ltc_enc_cnt s' = ltc_enc_cnt s)
         \<and> ltc_speed s' = ltc_speed s \<and> ltc_enc_tcformat s' = ltc_enc_tcformat s
         \<and> ltc_prev_cycle s' = ltc_prev_cycle s
         \<and> (r = Continue (s', v', ch') \<longrightarrow> v' = v \<and> ch' = ch \<and> \<bar>v\<bar> \<le> 10)
         \<and> (r = Return s' \<longrightarrow> \<bar>v\<bar> > 10)"
  using assms by (auto simp: speed_bounds_def bounds_log_def split: if_splits)

lemma speed_and_direction_log:
  assumes "speed_and_direction L H s a b v0 = r" "r = Return s' \<or> r = Continue (s', v', ch')"
  shows "tx_log s' = tx_log s @ stage2_log H s a b v0
         \<and> (TX_reset \<in> set (stage2_log H s a b v0) \<longrightarrow>
               ltc_enc_pos s' = - 9999 \<and> ltc_buf_len s' = 0 \<and> ltc_buf_off s' = 0)
         \<and> (TX_reset \<notin> set (stage2_log H s a b v0) \<longrightarrow>
               ltc_enc_pos s' = ltc_enc_pos s \<and> ltc_buf_len s' = ltc_buf_len s
               \<and> ltc_buf_off s' = ltc_buf_off s \<and> ltc_enc_cnt s' = ltc_enc_cnt s)
         \<and> ltc_enc_tcformat s' = ltc_enc_tcformat s \<and> ltc_prev_cycle s' = ltc_prev_cycle s
         \<and> (r = Continue (s', v', ch') \<longrightarrow>
               ltc_speed s' = ltc_speed s \<and> v' = (if not_rolling a b v0 then 0 else v0)
               \<and> \<bar>v'\<bar> \<le> 10 \<and> (not_rolling a b v0 \<longrightarrow> ltc_send_continuously H))
         \<and> (r = Return s' \<longrightarrow>
               (if not_rolling a b v0 then \<not> ltc_send_continuously H \<and> ltc_speed s' = 0
                else \<bar>v0\<bar> > 10))"
proof -
  let ?s1 = "if SIGNUM v0 \<noteq> SIGNUM (ltc_speed s)
                then ltc_tx_reset L (trace TX_direction_changed s) else s"
  define s2 where "s2 = (if ltc_speed ?s1 \<noteq> v0
                then ?s1\<lparr>ltc_encoder := ltc_encoder_set_filter L (ltc_encoder ?s1) (LTC_RISE_TIME H v0)\<rparr>
                else ?s1)"
  define flip where "flip = (if SIGNUM v0 \<noteq> SIGNUM (ltc_speed s) then [TX_direction_changed, TX_reset] else [])"
  have s2: "tx_log s2 = tx_log s @ flip" "ltc_speed s2 = ltc_speed s"
    "ltc_enc_tcformat s2 = ltc_enc_tcformat s" "ltc_prev_cycle s2 = ltc_prev_cycle s"
    "TX_reset \<in> set flip \<longrightarrow> ltc_enc_pos s2 = - 9999 \<and> ltc_buf_len s2 = 0 \<and> ltc_buf_off s2 = 0"
    "TX_reset \<notin> set flip \<longrightarrow> ltc_enc_pos s2 = ltc_enc_pos s \<and> ltc_buf_len s2 = ltc_buf_len s
               \<and> ltc_buf_off s2 = ltc_buf_off s \<and> ltc_enc_cnt s2 = ltc_enc_cnt s"
    by (simp_all add: s2_def flip_def)
  define s3 where "s3 = trace TX_not_rolling s2"
  define s4 where "s4 = (if a \<noteq> ltc_prev_cycle s3 then ltc_tx_reset L (trace TX_no_roll_seek s3) else s3)"
  have eq: "speed_and_direction L H s a b v0 =
      (if not_rolling a b v0
       then (if \<not> ltc_send_continuously H then Return (s3\<lparr>ltc_speed := 0\<rparr>)
             else speed_bounds L s4 0 (ltc_speed ?s1 \<noteq> v0))
       else speed_bounds L s2 v0 (ltc_speed ?s1 \<noteq> v0))"
    unfolding speed_and_direction_def Let_def s4_def s3_def s2_def not_rolling_def by simp
  show ?thesis
  proof (cases "not_rolling a b v0")
    case False
    then have log: "stage2_log H s a b v0 = flip @ bounds_log s v0"
      by (simp add: stage2_log_def flip_def)
    from False assms(1) have "speed_bounds L s2 v0 (ltc_speed ?s1 \<noteq> v0) = r"
      unfolding eq by simp
    note sb = speed_bounds_log [OF this assms(2)]
    have bl: "bounds_log s2 v0 = bounds_log s v0" by (simp add: bounds_log_def s2)
    from sb s2 False show ?thesis unfolding log bl by auto
  next
    case idle: True
    show ?thesis
    proof (cases "ltc_send_continuously H")
      case False
      with idle have log: "stage2_log H s a b v0 = flip @ [TX_not_rolling]"
        by (simp add: stage2_log_def flip_def)
      from False idle assms have "r = Return s'" "s' = s3\<lparr>ltc_speed := 0\<rparr>"
        unfolding eq by auto
      with s2 idle False show ?thesis unfolding log by (auto simp: s3_def)
    next
      case True
      define seek where "seek = (if a \<noteq> ltc_prev_cycle s then [TX_no_roll_seek, TX_reset] else [])"
      from True idle have log: "stage2_log H s a b v0 = flip @ TX_not_rolling # seek @ bounds_log s 0"
        by (simp add: stage2_log_def flip_def seek_def)
      have s4: "tx_log s4 = tx_log s @ flip @ TX_not_rolling # seek" "ltc_speed s4 = ltc_speed s"
        "ltc_enc_tcformat s4 = ltc_enc_tcformat s" "ltc_prev_cycle s4 = ltc_prev_cycle s"
        "TX_reset \<in> set (flip @ seek) \<longrightarrow> ltc_enc_pos s4 = - 9999 \<and> ltc_buf_len s4 = 0 \<and> ltc_buf_off s4 = 0"
        "TX_reset \<notin> set (flip @ seek) \<longrightarrow> ltc_enc_pos s4 = ltc_enc_pos s \<and> ltc_buf_len s4 = ltc_buf_len s
               \<and> ltc_buf_off s4 = ltc_buf_off s \<and> ltc_enc_cnt s4 = ltc_enc_cnt s"
        using s2 by (auto simp: s4_def s3_def seek_def)
      from idle True assms(1) have "speed_bounds L s4 0 (ltc_speed ?s1 \<noteq> v0) = r"
        unfolding eq by simp
      note sb = speed_bounds_log [OF this assms(2)]
      have bl: "bounds_log s4 0 = bounds_log s 0" by (simp add: bounds_log_def)
      from sb s4 idle True show ?thesis unfolding log bl by auto
    qed
  qed
qed

subsection \<open>The correction of the speed\<close>

text \<open>
  C7, as the specification states it, fails: at 1920 samples per frame and speed 8 a byte
  lasts 24 samples, the generator is aligned, and the speed is left alone, because the
  function compares the duration of one bit (an eightieth of a frame, 3 samples here)
  with 3.
\<close>

theorem soft_correction_counterexample:
  "spec_soft_correction (toy_host\<lparr>samples_per_timecode_frame := 1920, sample_rate := 48000\<rparr>)
      (cold\<lparr>ltc_speed := 8, ltc_enc_pos := 100\<rparr>) 100 0
   \<and> alignment_branch (toy_host\<lparr>samples_per_timecode_frame := 1920, sample_rate := 48000\<rparr>)
        (cold\<lparr>ltc_speed := 8, ltc_enc_pos := 100\<rparr>) 100 0 = Keep"
  by (simp add: spec_soft_correction_def alignment_branch_def alignment_mismatch_def
      jitter_correctable_def maxdiff_def wrap24h_def fmod_def c_trunc_def c_rem_def
      toy_host_def cold_def ltc_tx_initialize_def ltc_tx_reset_def ltc_tx_parse_offset_def
      trace_def Let_def)

text \<open>
  C7, amended. At a speed that is not negative, the speed is corrected exactly when the
  block does not re-align, the speed is not 0 and the duration of one bit at that speed,
  a frame divided by the speed and by 80, exceeds 3 samples. The block then goes to the
  output loop without a reset, with the speed lowered by the drift (wrapped at 24 hours)
  divided by the sample rate of the engine.
\<close>

theorem soft_correction_forward:
  assumes "0 \<le> ltc_speed s"
  shows "((alignment_branch H s cycle_start poff = Reduce_jitter)
          = (alignment_branch H s cycle_start poff \<noteq> Realign \<and> ltc_speed s \<noteq> 0
             \<and> samples_per_timecode_frame H / \<bar>ltc_speed s\<bar> / 80 > 3))
         \<and> (alignment_branch H s cycle_start poff = Reduce_jitter \<longrightarrow>
              align_and_output L H s cycle_start poff n out =
                encode_and_output L H n
                  (s\<lparr>ltc_speed := ltc_speed s
                       - fmod (real_of_int (ltc_enc_pos s) + ltc_enc_cnt s - poff
                               - real_of_int cycle_start) (real_of_int (wrap24h H))
                         / real_of_int (engine_sample_rate H)\<rparr>) out 0)"
proof -
  from assms have "\<bar>ltc_speed s\<bar> = ltc_speed s" by simp
  then show ?thesis
    by (simp add: alignment_branch_def jitter_correctable_def align_and_output_def
        reduce_jitter_def Let_def)
qed

theorem soft_correction_forward_witness:
  "0 \<le> ltc_speed (cold\<lparr>ltc_speed := 1 / 20, ltc_enc_pos := 100\<rparr> :: nat session)
   \<and> alignment_branch toy_host (cold\<lparr>ltc_speed := 1 / 20, ltc_enc_pos := 100\<rparr>) 100 0 = Reduce_jitter
   \<and> alignment_branch toy_host (cold\<lparr>ltc_speed := 1, ltc_enc_pos := 100\<rparr>) 100 0 \<noteq> Reduce_jitter"
  using soft_correction_forward [of "cold\<lparr>ltc_speed := 1 / 20, ltc_enc_pos := 100\<rparr>" toy_host 100 0]
        soft_correction_forward [of "cold\<lparr>ltc_speed := 1, ltc_enc_pos := 100\<rparr>" toy_host 100 0]
  by (simp add: alignment_branch_def alignment_mismatch_def
      jitter_correctable_def maxdiff_def wrap24h_def fmod_def c_trunc_def c_rem_def
      toy_host_def cold_def ltc_tx_initialize_def ltc_tx_reset_def ltc_tx_parse_offset_def
      trace_def Let_def)

subsection \<open>The filler sent while restarting\<close>

lemma unat_127: "real (unat (127 :: 8 word)) = 127"
  by simp

lemma account_encoded_Return:
  "e \<le> 0 \<Longrightarrow>
   account_encoded L H s e =
     Return (ltc_tx_reset L ((trace TX_empty_buffer s)
               \<lparr>ltc_encoder := ltc_encoder_buffer_flush L (ltc_encoder s)\<rparr>))"
  by (simp add: account_encoded_def)

lemma account_encoded_Continue:
  assumes "0 < e"
  shows "\<exists>s'. account_encoded L H s e = Continue s'
           \<and> ltc_buf_off s' = ltc_buf_off s \<and> ltc_buf_len s' = ltc_buf_len s + e
           \<and> ltc_enc_buf s' = ltc_enc_buf s \<and> tx_log s' = tx_log s
           \<and> ltc_enc_byte s' = (if 0 \<le> ltc_speed s then c_rem (ltc_enc_byte s + 1) 10 else ltc_enc_byte s)
           \<and> has_ltc_encoder s' = has_ltc_encoder s \<and> has_ltc_enc_buf s' = has_ltc_enc_buf s"
  using assms
  by (simp add: account_encoded_def Let_def ltc_tx_recalculate_position_def)

lemma fill_buffer_restarting:
  assumes "restarting s"
  shows "\<exists>s'. (if 0 < c_trunc (samples_per_timecode_frame H / 10)
               then fill_buffer L H s = Continue s' else fill_buffer L H s = Return s')
              \<and> (0 < c_trunc (samples_per_timecode_frame H / 10) \<longrightarrow>
                    ltc_buf_off s' = ltc_buf_off s
                    \<and> ltc_buf_len s' = ltc_buf_len s + c_trunc (samples_per_timecode_frame H / 10))
              \<and> (c_trunc (samples_per_timecode_frame H / 10) \<le> 0 \<longrightarrow>
                    ltc_buf_off s' = 0 \<and> ltc_buf_len s' = 0)
              \<and> (\<forall>i. ltc_buf_len s \<le> i
                      \<and> i < ltc_buf_len s + c_trunc (samples_per_timecode_frame H / 10)
                      \<longrightarrow> ltc_enc_buf s' i = 127)"
proof (cases "0 < c_trunc (samples_per_timecode_frame H / 10)")
  case True
  let ?k = "c_trunc (samples_per_timecode_frame H / 10)"
  let ?s1 = "s\<lparr>ltc_enc_buf := memset (ltc_enc_buf s) (ltc_buf_len s) 127 ?k\<rparr>"
  from account_encoded_Continue [OF True, of L H ?s1]
  obtain s' where "account_encoded L H ?s1 ?k = Continue s'"
    "ltc_buf_off s' = ltc_buf_off s" "ltc_buf_len s' = ltc_buf_len s + ?k"
    "ltc_enc_buf s' = memset (ltc_enc_buf s) (ltc_buf_len s) 127 ?k"
    by auto
  with True assms show ?thesis
    by (intro exI [of _ s']) (simp add: fill_buffer_def Let_def memset_def)
next
  case False
  with assms show ?thesis
    by (simp add: fill_buffer_def Let_def account_encoded_Return ltc_tx_reset_def trace_def memset_def)
qed

lemma step_back_wrap:
  assumes "ltc_speed s < 0" "c_rem (ltc_enc_byte s + 9) 10 = 9"
  shows "\<not> restarting (step_back L H s)" "ltc_enc_byte (step_back L H s) = 9"
    and "ltc_encoder (step_back L H s) = ltc_encoder_dec_timecode L (ltc_encoder s)"
    and "ltc_enc_buf (step_back L H s) = ltc_enc_buf s"
  using assms by (simp_all add: step_back_def Let_def ltc_tx_recalculate_position_def)

lemma fill_buffer_encoder:
  assumes "\<not> restarting s" "ltc_speed s < 0" "ltc_buf_len s = 0" "ltc_buf_off s = 0"
  shows "case ltc_encoder_encode_byte L (ltc_encoder s) (ltc_enc_byte s) (1 / ltc_speed s) of
           (True, e) \<Rightarrow> \<exists>s'. fill_buffer L H s = Return s'
         | (False, e) \<Rightarrow>
             (case ltc_encoder_get_buffer L e of
                (xs, e') \<Rightarrow>
                  if xs = [] then \<exists>s'. fill_buffer L H s = Return s'
                  else \<exists>s'. fill_buffer L H s = Continue s' \<and> \<not> restarting s'
                         \<and> ltc_buf_off s' = 0 \<and> ltc_buf_len s' = int (length xs)
                         \<and> (\<forall>i<length xs. ltc_enc_buf s' (int i) = xs ! i))"
proof -
  obtain err e where eb:
    "ltc_encoder_encode_byte L (ltc_encoder s) (ltc_enc_byte s) (1 / ltc_speed s) = (err, e)"
    by (cases "ltc_encoder_encode_byte L (ltc_encoder s) (ltc_enc_byte s) (1 / ltc_speed s)") auto
  obtain xs e' where gb: "ltc_encoder_get_buffer L e = (xs, e')"
    by (cases "ltc_encoder_get_buffer L e") auto
  show ?thesis
  proof (cases err)
    case True
    with assms eb show ?thesis by (simp add: fill_buffer_def)
  next
    case False
    show ?thesis
    proof (cases "xs = []")
      case True
      with assms eb gb \<open>\<not> err\<close> show ?thesis
        by (simp add: fill_buffer_def account_encoded_def)
    next
      case n: False
      with assms eb gb \<open>\<not> err\<close> show ?thesis
        by (simp add: fill_buffer_def account_encoded_def Let_def copy_samples_def)
    qed
  qed
qed

lemma filler_sent:
  assumes "ltc_buf_off s' = 0" "\<forall>i. 0 \<le> i \<and> i < ltc_buf_len s' \<longrightarrow> ltc_enc_buf s' i = 127"
    and run: "send_remaining v n s' out txf = (s'', out', txf')"
    and j: "txf \<le> j" "j < txf'" "j < length out"
  shows "out' ! j = (127 - 128) * v"
proof -
  from send_remaining_props [OF run]
  have p: "s'' = s'\<lparr>ltc_buf_off := ltc_buf_off s' + int (txf' - txf)\<rparr>"
    "ltc_buf_off s' \<le> ltc_buf_len s' \<longrightarrow> ltc_buf_off s'' \<le> ltc_buf_len s'"
    "out' ! j = (real (unat (ltc_enc_buf s' (ltc_buf_off s' + int (j - txf)))) - 128) * v"
    using j by blast+
  have "0 \<le> ltc_buf_len s'"
  proof (rule ccontr)
    assume "\<not> 0 \<le> ltc_buf_len s'"
    with assms(1) have "\<not> (ltc_buf_off s' < ltc_buf_len s' \<and> txf < n)" by simp
    with run have "txf' = txf" by (subst (asm) send_remaining.simps) simp
    with j show False by simp
  qed
  with p(1,2) assms(1) have "int (txf' - txf) \<le> ltc_buf_len s'" by simp
  with j have "int (j - txf) < ltc_buf_len s'" by linarith
  with assms(2) have "ltc_enc_buf s' (int (j - txf)) = 127" by simp
  with p(3) assms(1) show ?thesis by simp
qed

text \<open>
  C10, as the specification states it, fails. A block runs backwards from position 21, from
  the cold state. Its re-alignment (here on the cold state at the speed of the block; it
  begins with a reset) finds byte 0 and sets \<open>restarting\<close>, and the buffer is empty. The
  first refill steps back to byte 9 of the frame before (lines 613 to 620), which clears
  the flag through \<open>ltc_tx_recalculate_position\<close> before line 624 reads it: the refill
  appends the two samples of the encoder, and the block sends no filler at all.
\<close>

theorem filler_counterexample:
  "view (send_ltc_for_cycle (toy_lib 100) toy_host cold 21 17 4)
     = Some ([TX_direction_changed, TX_reset, TX_started_rolling, TX_reset, TX_reset,
              TX_realign 21 20 1, TX_restart_encoder 1 0 1, TX_done 4], [0, 36, 36, 36])
   \<and> (case realign (toy_lib 100) toy_host (cold\<lparr>ltc_speed := - 1\<rparr>) 21
              (sample_to_timecode toy_host 21 False 0) 20 1 4 (replicate 4 0) of
         Return r \<Rightarrow> False
       | Continue (s1, txf, out) \<Rightarrow>
           restarting s1 \<and> ltc_buf_len s1 = 0 \<and> ltc_buf_off s1 = 0 \<and> txf = 1
           \<and> (case encode_byte (toy_lib 100) toy_host s1 of
                Return r \<Rightarrow> False
              | Continue s2 \<Rightarrow> \<not> restarting s2 \<and> ltc_buf_len s2 = 2
                   \<and> ltc_enc_buf s2 0 = 200 \<and> ltc_enc_buf s2 1 = 200))"
  by (simp add: run_simps)

text \<open>
  C10, amended. A refill (lines 608 to 672) that starts with \<open>restarting\<close> set appends
  exactly \<open>trunc (frame / 10)\<close> samples, all of them the byte 127 (none when that number is
  not positive; the block then ends with a reset), and every output sample sent from them
  is \<open>(127 - 128) * (volume / 90)\<close>, below 0 when the volume is positive; except the
  refill of a block that runs backwards and steps from byte 0 to byte 9 of the frame
  before: that step clears the flag, and the refill appends what the encoder hands out for
  byte 9 (or ends the block with a reset when the encoder fails or hands out nothing).
\<close>

theorem filler_while_restarting:
  assumes "restarting s"
  shows "if ltc_speed s < 0 \<and> c_rem (ltc_enc_byte s + 9) 10 = 9
         then \<not> restarting (step_back L H s)
              \<and> (case ltc_encoder_encode_byte L (ltc_encoder_dec_timecode L (ltc_encoder s)) 9
                        (1 / ltc_speed s) of
                   (True, e) \<Rightarrow> \<exists>s'. encode_byte L H s = Return s'
                 | (False, e) \<Rightarrow>
                     (case ltc_encoder_get_buffer L e of
                        (xs, e') \<Rightarrow>
                          if xs = [] then \<exists>s'. encode_byte L H s = Return s'
                          else \<exists>s'. encode_byte L H s = Continue s' \<and> \<not> restarting s'
                                 \<and> ltc_buf_off s' = 0 \<and> ltc_buf_len s' = int (length xs)
                                 \<and> (\<forall>i<length xs. ltc_enc_buf s' (int i) = xs ! i)))
         else \<exists>s'. (if 0 < c_trunc (samples_per_timecode_frame H / 10)
                     then encode_byte L H s = Continue s' else encode_byte L H s = Return s')
                \<and> ltc_buf_off s' = 0
                \<and> ltc_buf_len s' = max 0 (c_trunc (samples_per_timecode_frame H / 10))
                \<and> (\<forall>i. 0 \<le> i \<and> i < ltc_buf_len s' \<longrightarrow> ltc_enc_buf s' i = 127)
                \<and> (\<forall>n out txf s'' out' txf' j.
                      send_remaining (ltc_output_volume H / 90) n s' out txf = (s'', out', txf')
                      \<and> txf \<le> j \<and> j < txf' \<and> j < length out
                      \<longrightarrow> out' ! j = (127 - 128) * (ltc_output_volume H / 90))
                \<and> (0 < ltc_output_volume H \<longrightarrow> (127 - 128) * (ltc_output_volume H / 90) < 0)"
proof (cases "ltc_speed s < 0 \<and> c_rem (ltc_enc_byte s + 9) 10 = 9")
  case True
  let ?t = "step_back L H s"
  from True have w: "\<not> restarting ?t" "ltc_enc_byte ?t = 9"
    "ltc_encoder ?t = ltc_encoder_dec_timecode L (ltc_encoder s)"
    using step_back_wrap [of s L H] by blast+
  have "ltc_speed ?t < 0" "ltc_buf_len ?t = 0" "ltc_buf_off ?t = 0"
    using True by simp_all
  from fill_buffer_encoder [OF w(1) this, of L H] w True show ?thesis
    unfolding encode_byte_def by simp
next
  case False
  let ?t = "step_back L H s"
  let ?k = "c_trunc (samples_per_timecode_frame H / 10)"
  let ?v = "ltc_output_volume H / 90"
  from False assms have r: "restarting ?t"
    using step_back_restarting [of s L H] by auto
  from fill_buffer_restarting [OF r, of H L]
  obtain s' where s':
    "if 0 < ?k then fill_buffer L H ?t = Continue s' else fill_buffer L H ?t = Return s'"
    "0 < ?k \<longrightarrow> ltc_buf_off s' = 0 \<and> ltc_buf_len s' = ?k"
    "?k \<le> 0 \<longrightarrow> ltc_buf_off s' = 0 \<and> ltc_buf_len s' = 0"
    "\<forall>i. 0 \<le> i \<and> i < ?k \<longrightarrow> ltc_enc_buf s' i = 127"
    by auto
  have off: "ltc_buf_off s' = 0" and len: "ltc_buf_len s' = max 0 ?k"
    using s'(2,3) by (auto simp: max_def)
  have filler: "\<forall>i. 0 \<le> i \<and> i < ltc_buf_len s' \<longrightarrow> ltc_enc_buf s' i = 127"
    using s'(4) len by (auto simp: max_def split: if_splits)
  have sent: "out' ! j = (127 - 128) * ?v"
    if "send_remaining ?v n s' out txf = (s'', out', txf')" "txf \<le> j" "j < txf'" "j < length out"
    for n out txf s'' out' txf' j
    using filler_sent [OF off filler that] .
  have "\<exists>s'. (if 0 < ?k then encode_byte L H s = Continue s' else encode_byte L H s = Return s')
                \<and> ltc_buf_off s' = 0 \<and> ltc_buf_len s' = max 0 ?k
                \<and> (\<forall>i. 0 \<le> i \<and> i < ltc_buf_len s' \<longrightarrow> ltc_enc_buf s' i = 127)
                \<and> (\<forall>n out txf s'' out' txf' j.
                      send_remaining ?v n s' out txf = (s'', out', txf')
                      \<and> txf \<le> j \<and> j < txf' \<and> j < length out
                      \<longrightarrow> out' ! j = (127 - 128) * ?v)
                \<and> (0 < ltc_output_volume H \<longrightarrow> (127 - 128) * ?v < 0)"
    using s'(1) off len filler sent
    by (intro exI [of _ s']) (simp add: encode_byte_def; blast)
  with False show ?thesis by (simp only: if_False)
qed

theorem filler_while_restarting_witness:
  "restarting (cold\<lparr>restarting := True, ltc_speed := 1\<rparr>)
   \<and> (\<exists>s'. encode_byte (toy_lib 100) toy_host (cold\<lparr>restarting := True, ltc_speed := 1\<rparr>) = Continue s'
          \<and> ltc_buf_len s' = 2 \<and> ltc_enc_buf s' 0 = 127 \<and> ltc_enc_buf s' 1 = 127)
   \<and> restarting (cold\<lparr>restarting := True, ltc_speed := - 1\<rparr>)
   \<and> (\<exists>s'. encode_byte (toy_lib 100) toy_host (cold\<lparr>restarting := True, ltc_speed := - 1\<rparr>) = Continue s'
          \<and> \<not> restarting s' \<and> ltc_buf_len s' = 2 \<and> ltc_enc_buf s' 0 = 200 \<and> ltc_enc_buf s' 1 = 200)"
proof -
  have h: "restarting (cold\<lparr>restarting := True, ltc_speed := 1\<rparr>)"
    "restarting (cold\<lparr>restarting := True, ltc_speed := - 1\<rparr>)"
    by simp_all
  have k: "c_trunc (samples_per_timecode_frame toy_host / 10) = 2"
    by (simp add: toy_host_def c_trunc_def)
  have f: "\<not> (ltc_speed (cold\<lparr>restarting := True, ltc_speed := 1\<rparr>) < 0
              \<and> c_rem (ltc_enc_byte (cold\<lparr>restarting := True, ltc_speed := 1\<rparr>) + 9) 10 = 9)"
    by simp
  have b: "ltc_speed (cold\<lparr>restarting := True, ltc_speed := - 1\<rparr>) < 0
           \<and> c_rem (ltc_enc_byte (cold\<lparr>restarting := True, ltc_speed := - 1\<rparr>) + 9) 10 = 9"
    by (simp add: toy_defs stage_defs)
  from filler_while_restarting [OF h(1), where H = toy_host and L = "toy_lib 100"]
  obtain s' where
    "encode_byte (toy_lib 100) toy_host (cold\<lparr>restarting := True, ltc_speed := 1\<rparr>) = Continue s'"
    "ltc_buf_len s' = 2" "\<forall>i. 0 \<le> i \<and> i < ltc_buf_len s' \<longrightarrow> ltc_enc_buf s' i = 127"
    unfolding k if_not_P [OF f] by auto
  then have 1: "\<exists>s'. encode_byte (toy_lib 100) toy_host (cold\<lparr>restarting := True, ltc_speed := 1\<rparr>) = Continue s'
          \<and> ltc_buf_len s' = 2 \<and> ltc_enc_buf s' 0 = 127 \<and> ltc_enc_buf s' 1 = 127"
    by auto
  have e: "ltc_encoder_encode_byte (toy_lib 100)
             (ltc_encoder_dec_timecode (toy_lib 100)
                (ltc_encoder (cold\<lparr>restarting := True, ltc_speed := - 1\<rparr>))) 9
             (1 / ltc_speed (cold\<lparr>restarting := True, ltc_speed := - 1\<rparr>)) = (False, Suc 0)"
    and g: "ltc_encoder_get_buffer (toy_lib 100) (Suc 0) = ([200, 200], Suc 0)"
    by (simp_all add: toy_defs stage_defs)
  from filler_while_restarting [OF h(2), where H = toy_host and L = "toy_lib 100"]
  obtain s' where
    "encode_byte (toy_lib 100) toy_host (cold\<lparr>restarting := True, ltc_speed := - 1\<rparr>) = Continue s'"
    "\<not> restarting s'" "ltc_buf_len s' = 2" "\<forall>i<2. ltc_enc_buf s' (int i) = [200, 200] ! i"
    unfolding if_P [OF b] e by (auto simp: g)
  then have 2: "\<exists>s'. encode_byte (toy_lib 100) toy_host (cold\<lparr>restarting := True, ltc_speed := - 1\<rparr>) = Continue s'
          \<and> \<not> restarting s' \<and> ltc_buf_len s' = 2 \<and> ltc_enc_buf s' 0 = 200 \<and> ltc_enc_buf s' 1 = 200"
    by (auto simp: numeral_2_eq_2 less_Suc_eq all_conj_distrib)
  from h 1 2 show ?thesis by blast
qed

text \<open>
  A block that runs backwards from position 13, from the cold state: the re-alignment
  sets \<open>restarting\<close>, and the two samples written in this block are the filler.
\<close>

lemma filler_in_a_block:
  "view (send_ltc_for_cycle (toy_lib 100) toy_host cold 13 10 3) =
     Some ([TX_direction_changed, TX_reset, TX_started_rolling, TX_reset, TX_reset,
            TX_realign 13 0 13, TX_restart_encoder 13 6 1, TX_done 3],
           [0, - (1 / 2), - (1 / 2)])"
  by (simp add: run_simps)

subsection \<open>A format that the encoder does not accept\<close>

text \<open>
  C5, as the specification states it, fails. The first block changes to a format that the
  encoder of the small instance refuses; the second block has the format of the start
  again, with which the generator works (second part), and still gives silence and no
  trace: the generation does not resume.
\<close>

theorem format_error_counterexample:
  "map_option snd (send_blocks (toy_lib 100) cold [(unrepresentable, 0, 4, 4), (toy_host, 4, 8, 4)])
     = Some [([Error_invalid_framerate, TX_cleanup], [0, 0, 0, 0]), ([], [0, 0, 0, 0])]
   \<and> view (send_ltc_for_cycle (toy_lib 100) toy_host cold 4 8 4)
     = Some ([TX_started_rolling, TX_reset, TX_reset, TX_realign 4 0 4,
              TX_restart_encoder 4 2 0, TX_done 4], [- (1 / 2), - (1 / 2), - (1 / 2), - (1 / 2)])"
  by (simp add: unrepresentable_def run_simps)

lemma dead_generator:
  assumes "\<not> (has_ltc_encoder s \<and> has_ltc_enc_buf s)" "0 < n"
  shows "send_ltc_for_cycle L H s a b n =
           Some (s\<lparr>tx_log := []\<rparr>, if has_ltc_output_port H then replicate n 0 else [])"
  using assms by (auto simp: send_ltc_for_cycle_def Let_def)

lemma dead_generator_blocks:
  assumes "\<not> (has_ltc_encoder s \<and> has_ltc_enc_buf s)"
    and "\<forall>(H, a, b, n) \<in> set bs. 0 < n"
  shows "\<exists>s'. send_blocks L s bs =
           Some (s', map (\<lambda>(H, a, b, n). ([], if has_ltc_output_port H then replicate n 0 else [])) bs)
         \<and> has_ltc_encoder s' = has_ltc_encoder s \<and> has_ltc_enc_buf s' = has_ltc_enc_buf s"
  using assms
proof (induction bs arbitrary: s)
  case Nil
  then show ?case by simp
next
  case (Cons blk bs)
  obtain H a b n where blk: "blk = (H, a, b, n)" by (cases blk) auto
  with Cons.prems have n: "0 < n" by simp
  let ?s1 = "s\<lparr>tx_log := []\<rparr>"
  have "\<not> (has_ltc_encoder ?s1 \<and> has_ltc_enc_buf ?s1)" using Cons.prems(1) by simp
  from Cons.IH [OF this] Cons.prems(2) obtain s' where
    "send_blocks L ?s1 bs =
       Some (s', map (\<lambda>(H, a, b, n). ([], if has_ltc_output_port H then replicate n 0 else [])) bs)"
    "has_ltc_encoder s' = has_ltc_encoder ?s1" "has_ltc_enc_buf s' = has_ltc_enc_buf ?s1"
    by auto
  then show ?case
    using dead_generator [OF Cons.prems(1) n, of L H a b] blk by auto
qed

text \<open>
  C5, amended. When the format changes to one for which \<open>ltc_encoder_reinit\<close> reports
  an error, the block writes the error message once, frees the encoder and its buffer and
  leaves silence; every later block, whatever the configuration then is, leaves silence
  (or nothing without a port) and writes no message: the generator stays disabled for the
  rest of the session.
\<close>

theorem invalid_framerate_disables_for_good:
  assumes "0 < n" "has_ltc_output_port H" "has_ltc_encoder st" "has_ltc_enc_buf st"
    "has_transport_master H" "\<not> freewheeling H" "send_ltc H"
    "\<not> (external_sync H \<and> sync_src_is_MIDIClock H)"
    "timecode_format H \<noteq> ltc_enc_tcformat st"
    "ltc_encoder_reinit L (ltc_encoder st) (nominal_sample_rate H)
       (timecode_to_frames_per_second H (timecode_format H))
       (TV_STANDARD H (timecode_format H)) = None"
    "\<forall>(H', a', b', n') \<in> set later. 0 < n'"
  shows "\<exists>s'. send_blocks L st ((H, a, b, n) # later) =
            Some (s', ([Error_invalid_framerate, TX_cleanup], replicate n 0)
                      # map (\<lambda>(H', a', b', n').
                               ([], if has_ltc_output_port H' then replicate n' 0 else [])) later)
          \<and> \<not> has_ltc_encoder s' \<and> \<not> has_ltc_enc_buf s'"
proof -
  let ?s1 = "ltc_tx_cleanup (trace Error_invalid_framerate (st\<lparr>tx_log := []\<rparr>))"
  have first: "send_ltc_for_cycle L H st a b n = Some (?s1, replicate n 0)"
    using assms(1-10) by (auto simp: send_ltc_for_cycle_def check_fps_def Let_def)
  have dead: "\<not> (has_ltc_encoder ?s1 \<and> has_ltc_enc_buf ?s1)"
    by (simp add: ltc_tx_cleanup_def trace_def)
  have log: "tx_log ?s1 = [Error_invalid_framerate, TX_cleanup]"
    by (simp add: ltc_tx_cleanup_def trace_def)
  from dead_generator_blocks [OF dead assms(11), of L] obtain s' where
    "send_blocks L ?s1 later =
       Some (s', map (\<lambda>(H, a, b, n). ([], if has_ltc_output_port H then replicate n 0 else [])) later)"
    "has_ltc_encoder s' = has_ltc_encoder ?s1" "has_ltc_enc_buf s' = has_ltc_enc_buf ?s1"
    by auto
  moreover have "\<not> has_ltc_encoder ?s1 \<and> \<not> has_ltc_enc_buf ?s1"
    by (simp add: ltc_tx_cleanup_def trace_def)
  ultimately show ?thesis using first log by simp
qed

theorem invalid_framerate_disables_for_good_witness:
  "\<exists>s'. send_blocks (toy_lib 100) cold [(unrepresentable, 0, 4, 4), (toy_host, 4, 8, 4)] =
          Some (s', [([Error_invalid_framerate, TX_cleanup], replicate 4 0), ([], replicate 4 0)])
        \<and> \<not> has_ltc_encoder s' \<and> \<not> has_ltc_enc_buf s'"
  using invalid_framerate_disables_for_good
          [of 4 unrepresentable cold "toy_lib 100" "[(toy_host, 4, 8, 4)]" 0 4]
  by (simp add: unrepresentable_def toy_defs ltc_tx_reset_def ltc_tx_parse_offset_def trace_def
      TV_STANDARD_def)

subsection \<open>A failure of the encoder\<close>

text \<open>
  C6, as the specification states it, fails. The encoder of this instance encodes one byte
  and reports an error at the second: the block ends with the reset, but the two samples
  of the first byte stay in the output buffer, which is not all silence.
\<close>

theorem encoder_failure_counterexample:
  "view (send_ltc_for_cycle (toy_lib 1) toy_host cold 0 4 4) =
     Some ([TX_started_rolling, TX_reset, TX_reset, TX_realign 0 0 0, TX_restart_encoder 0 0 0,
            TX_encoder_error 1, TX_reset], [36, 36, 0, 0])
   \<and> [36, 36, 0, 0] \<noteq> replicate 4 (0 :: real)"
  by (simp add: run_simps)

text \<open>
  C6, amended. In every block in which the encoder reports an error or hands out no
  sample, \<open>ltc_tx_reset\<close> is called, so that the position is the sentinel and the
  buffer is empty, the trace ends with the failure and the reset and has no line of a
  full block, and the output buffer is silence from some index below the block length
  on: the samples written before the failure stay, the rest is silence.
\<close>

theorem encoder_failure_ends_block:
  assumes "send_ltc_for_cycle L H st a b n = Some (s', out)"
    and "TX_empty_buffer \<in> set (tx_log s') \<or> (\<exists>k. TX_encoder_error k \<in> set (tx_log s'))"
  shows "ltc_enc_pos s' = - 9999 \<and> ltc_buf_len s' = 0 \<and> ltc_buf_off s' = 0
         \<and> ltc_enc_byte s' = 0 \<and> ltc_enc_cnt s' = 0
         \<and> (\<exists>pre. tx_log s' = pre @ [TX_empty_buffer, TX_reset]
                 \<or> (\<exists>k. tx_log s' = pre @ [TX_encoder_error k, TX_reset]))
         \<and> (\<forall>m. TX_done m \<notin> set (tx_log s'))
         \<and> length out = n \<and> (\<exists>k<n. \<forall>j. k \<le> j \<and> j < n \<longrightarrow> out ! j = 0)"
proof -
  from assms(1) have n: "0 < n" by (cases "n = 0") (simp_all add: send_ltc_for_cycle_def)
  have no: False if "list_all early_event (tx_log s')"
    using assms(2) early_events_only(1,2) [OF that] by blast
  from n show ?thesis
  proof (cases rule: send_ltc_for_cycle_cases [where L = L and H = H and st = st and a = a and b = b])
    case off
    with assms(1) have "tx_log s' = []" by auto
    with no show ?thesis by simp
  next
    case (format_error r)
    with assms(1) check_fps_Return [OF format_error(2)]
    have "tx_log s' = [Error_invalid_framerate, TX_cleanup]"
      by (auto simp: ltc_tx_cleanup_def trace_def)
    with no show ?thesis by simp
  next
    case (too_fast s1)
    with assms(1) before_alignment(1) [OF too_fast(2)] no show ?thesis by simp
  next
    case (idle s1 r)
    with assms(1) before_alignment(2) [OF idle(2) idle(4)] no show ?thesis by simp
  next
    case (run s1 s2 v ch s3 poff)
    let ?s = "s3\<lparr>ltc_prev_cycle := a, ltc_speed := v\<rparr>"
    let ?cs = "cycle_start_sample L H s1 a (block_speed a b n)"
    from before_alignment(3) [OF run(2) run(4) run(5)]
    have early: "list_all early_event (tx_log ?s)" by simp
    from run(6) assms(1) have "align_and_output L H ?s ?cs poff n (replicate n 0) = (s', out)"
      by simp
    from align_and_output_end [OF this] obtain mid fin where
      len: "length out = n" and log: "tx_log s' = tx_log ?s @ mid @ fin"
      and fin: "block_end n s' out fin"
      and mid0: "if alignment_branch H ?s ?cs poff = Realign
                  then \<exists>x y. mid = [TX_reset, TX_realign ?cs x y]
                          \<or> (\<exists>c d e. mid = [TX_reset, TX_realign ?cs x y, TX_restart_encoder c d e])
                  else mid = []"
      by blast
    have mid: "mid = [] \<or> (\<exists>x y. mid = [TX_reset, TX_realign ?cs x y]
                  \<or> (\<exists>c d e. mid = [TX_reset, TX_realign ?cs x y, TX_restart_encoder c d e]))"
      using mid0 by (cases "alignment_branch H ?s ?cs poff = Realign") simp_all
    have pm: "TX_empty_buffer \<notin> set (tx_log ?s @ mid)" "\<And>k. TX_encoder_error k \<notin> set (tx_log ?s @ mid)"
      "\<And>m. TX_done m \<notin> set (tx_log ?s @ mid)"
      using early_events_only [OF early] mid by auto
    with assms(2) log have "TX_empty_buffer \<in> set fin \<or> (\<exists>k. TX_encoder_error k \<in> set fin)"
      by auto
    with fin have f: "(fin = [TX_empty_buffer, TX_reset] \<or> (\<exists>b. fin = [TX_encoder_error b, TX_reset]))
         \<and> ltc_enc_pos s' = - 9999 \<and> ltc_buf_len s' = 0 \<and> ltc_buf_off s' = 0
         \<and> ltc_enc_byte s' = 0 \<and> ltc_enc_cnt s' = 0
         \<and> (\<exists>k<n. \<forall>j. k \<le> j \<and> j < n \<longrightarrow> out ! j = 0)"
      by (auto simp: block_end_def)
    then have "\<forall>m. TX_done m \<notin> set fin" by auto
    with pm(3) log have nd: "\<forall>m. TX_done m \<notin> set (tx_log s')" by auto
    from f log have "\<exists>pre. tx_log s' = pre @ [TX_empty_buffer, TX_reset]
                 \<or> (\<exists>k. tx_log s' = pre @ [TX_encoder_error k, TX_reset])"
      by (metis append.assoc)
    with f nd len show ?thesis by blast
  qed
qed

theorem encoder_failure_ends_block_witness:
  "\<exists>s' out. send_ltc_for_cycle (toy_lib 1) toy_host cold 0 4 4 = Some (s', out)
      \<and> TX_encoder_error 1 \<in> set (tx_log s') \<and> ltc_enc_pos s' = - 9999
      \<and> (\<exists>k<4. \<forall>j. k \<le> j \<and> j < 4 \<longrightarrow> out ! j = 0)"
proof -
  obtain s' out where run: "send_ltc_for_cycle (toy_lib 1) toy_host cold 0 4 4 = Some (s', out)"
    using send_ltc_for_cycle_returns [of 4 "toy_lib 1" toy_host cold 0 4] by auto
  have "view (send_ltc_for_cycle (toy_lib 1) toy_host cold 0 4 4) =
     Some ([TX_started_rolling, TX_reset, TX_reset, TX_realign 0 0 0, TX_restart_encoder 0 0 0,
            TX_encoder_error 1, TX_reset], [36, 36, 0, 0])"
    by (simp add: run_simps)
  with run have log: "TX_encoder_error 1 \<in> set (tx_log s')" by (simp add: view_def)
  then have "TX_empty_buffer \<in> set (tx_log s') \<or> (\<exists>k. TX_encoder_error k \<in> set (tx_log s'))"
    by blast
  from encoder_failure_ends_block [OF run this] run log show ?thesis by blast
qed

subsection \<open>The invariant, from the start of the generator on\<close>

lemma send_blocks_invariant:
  assumes "send_blocks L s bs = Some (s', outs)" "buffer_invariant s"
  shows "buffer_invariant s'"
  using assms
proof (induction bs arbitrary: s outs)
  case Nil
  then show ?case by simp
next
  case (Cons blk bs)
  obtain H a b n where blk: "blk = (H, a, b, n)" by (cases blk) auto
  from Cons.prems(1) blk obtain s1 out outs1 where
    one: "send_ltc_for_cycle L H s a b n = Some (s1, out)"
    and rest: "send_blocks L s1 bs = Some (s', outs1)"
    by (auto split: option.splits)
  from send_ltc_for_cycle_invariant [OF one Cons.prems(2)] have "buffer_invariant s1" .
  from Cons.IH [OF rest this] show ?case .
qed

text \<open>
  C8. The offset of the buffer does not exceed its length and the byte index is between 0
  and 9: after \<open>ltc_tx_reset\<close>; after a re-alignment, however it ends; after every call of
  the function that comes back, when it held before the call; and so after any number of
  blocks from the state that \<open>ltc_tx_initialize\<close> leaves.
\<close>

theorem buffer_invariant_kept:
  "buffer_invariant (ltc_tx_reset L s)
   \<and> (\<forall>s' txf out'. realign L H s cs tc tcs soff n out = Return s'
                     \<or> realign L H s cs tc tcs soff n out = Continue (s', txf, out')
                     \<longrightarrow> buffer_invariant s')
   \<and> (\<forall>s' out'. buffer_invariant st \<and> send_ltc_for_cycle L H st a b n = Some (s', out')
                 \<longrightarrow> buffer_invariant s')
   \<and> (\<forall>s' outs. send_blocks L (ltc_tx_initialize L H e latency) bs = Some (s', outs)
                 \<longrightarrow> buffer_invariant s')"
proof -
  have "buffer_invariant (ltc_tx_initialize L H e latency)"
    by (simp add: ltc_tx_initialize_def buffer_invariant_def)
  then show ?thesis
    using realign_invariant [of L H s cs tc tcs soff n out]
          send_ltc_for_cycle_invariant [of L H st a b n]
          send_blocks_invariant [of L "ltc_tx_initialize L H e latency" bs]
    by (auto simp: buffer_invariant_def)
qed

theorem buffer_invariant_kept_witness:
  "buffer_invariant cold
   \<and> map_option (\<lambda>(s, out). (ltc_buf_off s, ltc_buf_len s, ltc_enc_byte s))
        (send_ltc_for_cycle (toy_lib 100) toy_host cold 0 3 3) = Some (1, 2, 2)
   \<and> (\<exists>s' out. send_ltc_for_cycle (toy_lib 100) toy_host cold 0 3 3 = Some (s', out)
         \<and> buffer_invariant s')"
proof -
  have c: "buffer_invariant cold"
    by (simp add: buffer_invariant_def toy_defs ltc_tx_reset_def ltc_tx_parse_offset_def trace_def)
  have v: "map_option (\<lambda>(s, out). (ltc_buf_off s, ltc_buf_len s, ltc_enc_byte s))
        (send_ltc_for_cycle (toy_lib 100) toy_host cold 0 3 3) = Some (1, 2, 2)"
    by (simp add: run_simps)
  obtain s' out where run: "send_ltc_for_cycle (toy_lib 100) toy_host cold 0 3 3 = Some (s', out)"
    using send_ltc_for_cycle_returns [of 3 "toy_lib 100" toy_host cold 0 3] by auto
  from buffer_invariant_kept [where L = "toy_lib 100" and H = toy_host and st = cold
         and a = 0 and b = 3 and n = 3]
    c run
  have "buffer_invariant s'" by blast
  with c v run show ?thesis by blast
qed

subsection \<open>What a re-alignment does\<close>

text \<open>
  C4, as the specification states it, fails: not every re-alignment computes the byte and
  the offset in the block. With frames of 10 samples and an aligned start 13 samples
  after the start of its timecode frame, the block re-aligns (the trace has the line of
  line 513), finds the offset in the frame out of range at line 516, resets again and
  returns: the line of line 544 is missing, and the byte index is the 0 of the reset,
  where the rounding of the claim gives 13.
\<close>

theorem hard_resync_counterexample:
  "view (send_ltc_for_cycle (toy_lib 100) short_frames cold 13 17 4) =
     Some ([TX_started_rolling, TX_reset, TX_reset, TX_realign 13 0 13, TX_reset], [0, 0, 0, 0])
   \<and> map_option (\<lambda>(s, out). ltc_enc_byte s) (send_ltc_for_cycle (toy_lib 100) short_frames cold 13 17 4)
       = Some 0
   \<and> start_byte short_frames (cold\<lparr>ltc_speed := 1\<rparr>) 13 = 13"
  by (simp add: short_frames_def start_byte_def run_simps)

text \<open>
  C4, amended. On every re-alignment the generator is reset, the encoder gets the
  timecode of the aligned start rounded down to a frame (hours modulo 24) and the
  drop-frame bit of the active format (\<open>seeded\<close>). When the offset \<open>soff\<close> in the frame is
  negative or not below the frame length, the generator is reset once more and the block
  returns with its buffer untouched. Otherwise (\<open>realigned\<close>) the byte index is
  \<open>floor (10 * soff / frame)\<close> at a negative speed and \<open>ceil (10 * soff / frame)\<close>
  otherwise, with 10 turned into 0 and the timecode incremented, and the offset in the
  block is computed; when it lies in the block the output loop starts there, and when it
  does not the block returns with its buffer untouched and the position still the
  sentinel.
\<close>

theorem hard_resync_steps:
  assumes "alignment_branch H s cycle_start poff = Realign"
  shows
    "let tc = sample_to_timecode H cycle_start (ltc_timecode_negative_offset s) (ltc_timecode_offset s);
         tcs = timecode_to_sample H tc (ltc_timecode_negative_offset s) (ltc_timecode_offset s);
         soff = (if ltc_speed s = 0 then 0 else cycle_start - tcs);
         cyc_off = start_offset H s soff
     in if soff < 0 \<or> samples_per_timecode_frame H \<le> real_of_int soff then
          \<exists>s'. align_and_output L H s cycle_start poff n out = (s', out)
               \<and> tx_log s' = tx_log s @ [TX_reset, TX_realign cycle_start tcs soff, TX_reset]
               \<and> ltc_encoder s' = ltc_encoder_reset L (seeded L H s tc)
               \<and> ltc_enc_pos s' = - 9999
        else if 0 \<le> cyc_off \<and> cyc_off \<le> int n then
          \<exists>s'. realigned L H s cycle_start tc tcs soff s'
               \<and> ltc_enc_pos s' = c_rem tcs (wrap24h H)
               \<and> align_and_output L H s cycle_start poff n out =
                    encode_and_output L H n s'
                      (replicate (nat cyc_off) 0 @ drop (nat cyc_off) out)
                      (nat (c_trunc (rint (real_of_int cyc_off / \<bar>ltc_speed s\<bar>))))
        else
          \<exists>s'. align_and_output L H s cycle_start poff n out = (s', out)
               \<and> realigned L H s cycle_start tc tcs soff s' \<and> ltc_enc_pos s' = - 9999"
proof -
  define tc where "tc = sample_to_timecode H cycle_start (ltc_timecode_negative_offset s) (ltc_timecode_offset s)"
  define tcs where "tcs = timecode_to_sample H tc (ltc_timecode_negative_offset s) (ltc_timecode_offset s)"
  define soff where "soff = (if ltc_speed s = 0 then 0 else cycle_start - tcs)"
  define cyc where "cyc = start_offset H s soff"
  let ?r = "realign L H s cycle_start tc tcs soff n out"
  have run: "align_and_output L H s cycle_start poff n out =
          (case ?r of Return s' \<Rightarrow> (s', out)
           | Continue (s', txf, out') \<Rightarrow> encode_and_output L H n s' out' txf)"
    unfolding soff_def tcs_def tc_def using assms by (simp add: align_and_output_def Let_def)
  note rr = realign_result [of soff H L s cycle_start tc tcs n out, folded cyc_def]
  have "if soff < 0 \<or> samples_per_timecode_frame H \<le> real_of_int soff then
          \<exists>s'. align_and_output L H s cycle_start poff n out = (s', out)
               \<and> tx_log s' = tx_log s @ [TX_reset, TX_realign cycle_start tcs soff, TX_reset]
               \<and> ltc_encoder s' = ltc_encoder_reset L (seeded L H s tc)
               \<and> ltc_enc_pos s' = - 9999
        else if 0 \<le> cyc \<and> cyc \<le> int n then
          \<exists>s'. realigned L H s cycle_start tc tcs soff s'
               \<and> ltc_enc_pos s' = c_rem tcs (wrap24h H)
               \<and> align_and_output L H s cycle_start poff n out =
                    encode_and_output L H n s'
                      (replicate (nat cyc) 0 @ drop (nat cyc) out)
                      (nat (c_trunc (rint (real_of_int cyc / \<bar>ltc_speed s\<bar>))))
        else
          \<exists>s'. align_and_output L H s cycle_start poff n out = (s', out)
               \<and> realigned L H s cycle_start tc tcs soff s' \<and> ltc_enc_pos s' = - 9999"
  proof (cases "soff < 0 \<or> samples_per_timecode_frame H \<le> real_of_int soff")
    case True
    with rr obtain s1 where "?r = Return s1"
      "tx_log s1 = tx_log s @ [TX_reset, TX_realign cycle_start tcs soff, TX_reset]"
      "ltc_encoder s1 = ltc_encoder_reset L (seeded L H s tc)" "ltc_enc_pos s1 = - 9999"
      by (simp only: if_P if_not_P simp_thms) blast
    with run True show ?thesis by (simp only: if_P) auto
  next
    case rng: False
    show ?thesis
    proof (cases "0 \<le> cyc \<and> cyc \<le> int n")
      case True
      with rng rr obtain s1 where "?r = Continue (s1,
              nat (c_trunc (rint (real_of_int cyc / \<bar>ltc_speed s\<bar>))),
              replicate (nat cyc) 0 @ drop (nat cyc) out)"
            "realigned L H s cycle_start tc tcs soff s1" "ltc_enc_pos s1 = c_rem tcs (wrap24h H)"
        by (simp only: if_P if_not_P simp_thms) blast
      with run rng True show ?thesis by (simp only: if_P if_not_P simp_thms) auto
    next
      case False
      with rng rr obtain s1 where "?r = Return s1"
        "realigned L H s cycle_start tc tcs soff s1" "ltc_enc_pos s1 = - 9999"
        by (simp only: if_P if_not_P simp_thms) blast
      with run rng False show ?thesis by (simp only: if_P if_not_P simp_thms) auto
    qed
  qed
  then show ?thesis
    unfolding Let_def tc_def [symmetric] tcs_def [symmetric] soff_def [symmetric] cyc_def [symmetric] .
qed

theorem hard_resync_steps_witness:
  "alignment_branch toy_host (cold\<lparr>ltc_speed := - 1\<rparr>) 13 0 = Realign
   \<and> start_byte toy_host (cold\<lparr>ltc_speed := - 1\<rparr>) 13 = 6
   \<and> start_offset toy_host (cold\<lparr>ltc_speed := - 1\<rparr>) 13 = 1
   \<and> (\<exists>s'. ltc_enc_byte s' = 6 \<and> restarting s' \<and> ltc_enc_pos s' = 0
          \<and> tx_log s' = [TX_reset, TX_reset, TX_realign 13 0 13, TX_restart_encoder 13 6 1]
          \<and> align_and_output (toy_lib 100) toy_host (cold\<lparr>ltc_speed := - 1\<rparr>) 13 0 3 [0, 0, 0] =
               encode_and_output (toy_lib 100) toy_host 3 s' [0, 0, 0] 1)"
proof -
  let ?s = "cold\<lparr>ltc_speed := - 1\<rparr> :: nat session"
  have h: "alignment_branch toy_host ?s 13 0 = Realign"
    by (simp add: toy_defs stage_defs)
  have b: "start_byte toy_host ?s 13 = 6"
    by (simp add: start_byte_def toy_defs stage_defs)
  have c: "start_offset toy_host ?s 13 = 1"
    by (simp add: start_offset_def b) (simp add: toy_defs stage_defs)
  have t: "timecode_to_sample toy_host
             (sample_to_timecode toy_host 13 (ltc_timecode_negative_offset ?s) (ltc_timecode_offset ?s))
             (ltc_timecode_negative_offset ?s) (ltc_timecode_offset ?s) = 0"
    by (simp add: toy_defs stage_defs)
  have v: "ltc_speed ?s = - 1" "samples_per_timecode_frame toy_host = 20" "tx_log ?s = [TX_reset]"
    "restarting ?s = False" "wrap24h toy_host = 43200000"
    by (simp_all add: toy_defs stage_defs)
  from hard_resync_steps [OF h, of "toy_lib 100" 3 "[0, 0, 0]"]
  obtain s' where "realigned (toy_lib 100) toy_host ?s 13
        (sample_to_timecode toy_host 13 (ltc_timecode_negative_offset ?s) (ltc_timecode_offset ?s))
        0 13 s'" "ltc_enc_pos s' = 0"
      "align_and_output (toy_lib 100) toy_host ?s 13 0 3 [0, 0, 0] =
               encode_and_output (toy_lib 100) toy_host 3 s' [0, 0, 0] 1"
    unfolding Let_def t by (simp add: c v c_rem_def c_trunc_def rint_def) blast
  then show ?thesis using h b c by (auto simp: realigned_def v)
qed

subsection \<open>The condition of a re-alignment\<close>

lemma check_fps_Continue_fields:
  assumes "check_fps L H s = Continue s'"
  shows "ltc_enc_tcformat s' = timecode_format H \<and> ltc_speed s' = ltc_speed s
         \<and> (tx_log s' = tx_log s \<and> ltc_enc_pos s' = ltc_enc_pos s \<and> ltc_buf_len s' = ltc_buf_len s
              \<and> ltc_buf_off s' = ltc_buf_off s \<and> ltc_prev_cycle s' = ltc_prev_cycle s
              \<and> ltc_enc_cnt s' = ltc_enc_cnt s
            \<or> tx_log s' = tx_log s @ [TX_reset] \<and> ltc_enc_pos s' = - 9999)"
  using assms
  by (auto simp: check_fps_def Let_def ltc_tx_parse_offset_def split: if_splits option.splits)

lemma cycle_start_sample_latency:
  "ltc_out_latency_max s = ltc_out_latency_max s' \<Longrightarrow>
   cycle_start_sample L H s a v = cycle_start_sample L H s' a v"
  by (simp add: cycle_start_sample_def)

lemma block_end_no_realign:
  "block_end n s' out fin \<Longrightarrow> TX_realign x y z \<notin> set fin"
  by (auto simp: block_end_def)

text \<open>
  C1, as the specification states it, fails. The generator ran at speed 1 and is 3
  samples ahead of the aligned start 97 of a block that runs at speed 2. With the previous
  speed the tolerance is 2 and the condition of the claim holds; the function takes the
  tolerance at the speed of the block, 4, and does not re-align: the block is encoded
  without any reset.
\<close>

theorem hard_resync_condition_counterexample:
  "ltc_speed drifted = 1
   \<and> cycle_start_sample (toy_lib 100) toy_host drifted 97 (block_speed 97 105 4) = 97
   \<and> spec_hard_resync toy_host drifted 1 97
   \<and> view (send_ltc_for_cycle (toy_lib 100) toy_host drifted 97 105 4)
       = Some ([TX_done 4], [36, 36, 36, 36])"
  by (simp add: drifted_def spec_hard_resync_def spec_tolerance_def run_simps)

text \<open>
  C1, amended. For a block that gets to the alignment, with \<open>s3\<close> the state and \<open>poff\<close>
  the duration that the resampling hands on, and \<open>v\<close> the speed of the block itself (0
  when it does not roll): the block re-aligns exactly when the position is negative, as
  the sentinel is, or \<open>v\<close> is not 0 and the expected position
  \<open>ceil (position + count - poff)\<close>, reduced by \<open>fmod\<close> to 24 hours, differs from the
  aligned start, reduced by \<open>%\<close>, by more than the tolerance at \<open>v\<close>. Only \<open>poff\<close> uses
  the speed of the previous block: it is the number of samples still in the buffer times
  that speed, or 0 after a reset by the resampling.
\<close>

theorem hard_resync_condition:
  assumes "0 < n" "generator_on H st"
    and "check_fps L H (st\<lparr>tx_log := []\<rparr>) = Continue s1"
    and "\<not> timecode_to_frames_per_second H (timecode_format H) > 30"
    and "speed_and_direction L H s1 a b (rescale_speed H (block_speed a b n)) = Continue (s2, v, ch)"
    and "resample_buffer L s2 v ch = Some (s3, poff)"
  shows "\<exists>s' out. send_ltc_for_cycle L H st a b n = Some (s', out)
     \<and> ((\<exists>x y z. TX_realign x y z \<in> set (tx_log s'))
          = (ltc_enc_pos s3 < 0
             \<or> (v \<noteq> 0
                \<and> \<bar>fmod (real_of_int \<lceil>real_of_int (ltc_enc_pos s3) + ltc_enc_cnt s3 - poff\<rceil>)
                         (real_of_int (wrap24h H))
                    - real_of_int (c_rem (cycle_start_sample L H st a (block_speed a b n)) (wrap24h H))\<bar>
                  > spec_tolerance H v)))
     \<and> (poff = real_of_int (ltc_buf_len s2 - ltc_buf_off s2) * ltc_speed st
         \<or> (poff = 0 \<and> ltc_enc_pos s3 = - 9999))"
proof -
  let ?s = "s3\<lparr>ltc_prev_cycle := a, ltc_speed := v\<rparr>"
  let ?cs = "cycle_start_sample L H st a (block_speed a b n)"
  note c1 = check_fps_Continue [OF assms(3)] check_fps_Continue_fields [OF assms(3)]
  note c2 = speed_and_direction_log [OF assms(5), of s2 v ch]
  note c3 = resample_buffer_props [OF assms(6)]
  have cs: "cycle_start_sample L H s1 a (block_speed a b n) = ?cs"
    using c1 by (intro cycle_start_sample_latency) simp
  obtain s' out where ao: "align_and_output L H ?s ?cs poff n (replicate n 0) = (s', out)"
    by (cases "align_and_output L H ?s ?cs poff n (replicate n 0)") auto
  have run: "send_ltc_for_cycle L H st a b n = Some (s', out)"
    using send_ltc_for_cycle_on [OF assms(1,2), of L a b] assms(3-6) ao cs by simp
  from before_alignment(3) [OF assms(3) assms(5) assms(6)]
  have early: "list_all early_event (tx_log ?s)" by simp
  from align_and_output_end [OF ao] obtain mid fin where
      log: "tx_log s' = tx_log ?s @ mid @ fin" and fin: "block_end n s' out fin"
      and mid: "if alignment_branch H ?s ?cs poff = Realign
                  then \<exists>x y. mid = [TX_reset, TX_realign ?cs x y]
                          \<or> (\<exists>c d e. mid = [TX_reset, TX_realign ?cs x y, TX_restart_encoder c d e])
                  else mid = []"
    by blast
  have "(\<exists>x y z. TX_realign x y z \<in> set (tx_log s')) = (alignment_branch H ?s ?cs poff = Realign)"
  proof (cases "alignment_branch H ?s ?cs poff = Realign")
    case True
    with mid obtain x y where "TX_realign ?cs x y \<in> set mid" by auto
    with log True show ?thesis by auto
  next
    case False
    with mid have "mid = []" by simp
    with log early_events_only(4) [OF early] block_end_no_realign [OF fin] False
    show ?thesis by auto
  qed
  moreover have "(alignment_branch H ?s ?cs poff = Realign) = alignment_mismatch H ?s ?cs poff"
    by (simp add: alignment_branch_def)
  moreover have "maxdiff H ?s = spec_tolerance H v"
    using c1 c2 c3 by (simp add: maxdiff_def spec_tolerance_def Let_def)
  ultimately have iff: "(\<exists>x y z. TX_realign x y z \<in> set (tx_log s'))
          = (ltc_enc_pos s3 < 0
             \<or> (v \<noteq> 0
                \<and> \<bar>fmod (real_of_int \<lceil>real_of_int (ltc_enc_pos s3) + ltc_enc_cnt s3 - poff\<rceil>)
                         (real_of_int (wrap24h H))
                    - real_of_int (c_rem ?cs (wrap24h H))\<bar>
                  > spec_tolerance H v))"
    by (simp add: alignment_mismatch_def)
  from resample_buffer_result [of L s2 v ch] assms(6)
  have "poff = buffered_duration s2 \<or> (s3 = ltc_tx_reset L (trace TX_resample_destroys s2) \<and> poff = 0)"
    by auto
  then have po: "poff = real_of_int (ltc_buf_len s2 - ltc_buf_off s2) * ltc_speed st
         \<or> (poff = 0 \<and> ltc_enc_pos s3 = - 9999)"
    using c1 c2 by (auto simp: buffered_duration_def)
  from run iff po show ?thesis by blast
qed

theorem hard_resync_condition_witness:
  "\<exists>s' out. send_ltc_for_cycle (toy_lib 100) toy_host drifted 97 105 4 = Some (s', out)
      \<and> \<not> (\<exists>x y z. TX_realign x y z \<in> set (tx_log s'))"
proof -
  let ?L = "toy_lib 100"
  let ?s1 = "drifted\<lparr>tx_log := []\<rparr>"
  have g: "generator_on toy_host drifted"
    by (simp add: generator_on_def drifted_def toy_defs stage_defs)
  have c: "check_fps ?L toy_host ?s1 = Continue ?s1"
    by (simp add: drifted_def toy_defs stage_defs)
  have f: "\<not> timecode_to_frames_per_second toy_host (timecode_format toy_host) > 30"
    by (simp add: toy_host_def)
  have v0: "rescale_speed toy_host (block_speed 97 105 4) = 2"
    by (simp add: rescale_speed_def block_speed_def toy_host_def)
  obtain s2 where sd: "speed_and_direction ?L toy_host ?s1 97 105 2 = Continue (s2, 2, True)"
    and s2: "ltc_buf_off s2 = 0" "ltc_buf_len s2 = 0" "ltc_enc_pos s2 = 100" "ltc_enc_cnt s2 = 0"
    by (simp add: drifted_def toy_defs stage_defs)
  from resample_buffer_result [of ?L s2 2 True] s2
  have rb: "resample_buffer ?L s2 2 True = Some (s2, 0)" by auto
  have cs: "cycle_start_sample ?L toy_host drifted 97 (block_speed 97 105 4) = 97"
    by (simp add: drifted_def toy_defs stage_defs)
  have w: "wrap24h toy_host = 43200000" by (simp add: wrap24h_def toy_host_def c_trunc_def)
  have t: "spec_tolerance toy_host 2 = 4" by (simp add: spec_tolerance_def toy_host_def)
  from hard_resync_condition [OF _ g c f, of 4 97 105 s2 2 True s2 0] sd rb
  show ?thesis
    unfolding v0 cs w t by (simp add: s2 fmod_def c_rem_def c_trunc_def)
qed

subsection \<open>Resets at the changes of speed\<close>







end
